theory Spec2Isabelle
  imports
    Main
    "HOL-Library.Word"
    "HOL-Library.Char_ord"
    "HOL-Library.List_Lexorder"
    "HOL-Library.Sublist"
begin

unbundle bit_operations_syntax

section \<open>pg\_arman, backup.c: data model\<close>

text \<open>
  The types of \<^verbatim>\<open>pg_arman.h\<close> and of the PostgreSQL headers that
  \<^verbatim>\<open>backup.c\<close> uses. Only the fields that \<^verbatim>\<open>backup.c\<close> reads or writes are kept.
  \<^verbatim>\<open>time_t\<close> values are only compared and copied, so they are unbounded integers;
  block numbers, timelines, modes and log positions keep their widths.
\<close>

type_synonym time_t = int
type_synonym XLogRecPtr = "64 word"
type_synonym TimeLineID = "32 word"
type_synonym BlockNumber = "32 word"
type_synonym mode_t = "32 word"

datatype BackupStatus =
  BACKUP_STATUS_INVALID | BACKUP_STATUS_OK | BACKUP_STATUS_RUNNING | BACKUP_STATUS_ERROR
| BACKUP_STATUS_DELETING | BACKUP_STATUS_DELETED | BACKUP_STATUS_DONE | BACKUP_STATUS_CORRUPT

datatype BackupMode = BACKUP_MODE_INVALID | BACKUP_MODE_DIFF_PAGE | BACKUP_MODE_FULL

datatype ForkNumber =
  InvalidForkNumber | MAIN_FORKNUM | FSM_FORKNUM | VISIBILITYMAP_FORKNUM | INIT_FORKNUM

record RelFileNode =
  spcNode :: "32 word"
  dbNode :: "32 word"
  relNode :: "32 word"

record pgBackup =
  backup_mode :: BackupMode
  status :: BackupStatus
  tli :: TimeLineID
  start_lsn :: XLogRecPtr
  stop_lsn :: XLogRecPtr
  start_time :: time_t
  end_time :: time_t
  recovery_xid :: "32 word"
  recovery_time :: time_t
  data_bytes :: int
  block_size :: nat
  wal_block_size :: nat

record pgFile =
  path :: string
  mode :: mode_t
  mtime :: time_t
  file_size :: int
  read_size :: int
  write_size :: int
  is_datafile :: bool
  pagemap :: "BlockNumber set"

definition BYTES_INVALID :: int where
  "BYTES_INVALID = - 1"

definition MAXPGPATH :: nat where
  "MAXPGPATH = 1024"

definition TIMEOUT_ARCHIVE :: nat where
  "TIMEOUT_ARCHIVE = 10"

text \<open>\<^verbatim>\<open>struct stat\<close>: \<^verbatim>\<open>backup.c\<close> reads \<^verbatim>\<open>st_mode\<close> only.\<close>

record stat_buf =
  st_mode :: mode_t

text \<open>
  The outcome of \<^verbatim>\<open>stat(path, &buf)\<close>. On success the buffer is filled in. On failure
  the call returns -1, sets \<^verbatim>\<open>errno\<close> and does not fill the buffer: the second argument
  of \<open>StatFail\<close> is what the automatic variable \<^verbatim>\<open>buf\<close> holds then, an indeterminate
  value since the callers never initialise it.
\<close>

datatype stat_outcome = StatOk stat_buf | StatFail int stat_buf

definition ENOENT :: int where
  "ENOENT = 2"

definition EACCES :: int where
  "EACCES = 13"

definition S_IFMT :: mode_t where
  "S_IFMT = 0xF000"

definition S_IFREG :: mode_t where
  "S_IFREG = 0x8000"

definition S_IFDIR :: mode_t where
  "S_IFDIR = 0x4000"

definition S_ISREG :: "mode_t \<Rightarrow> bool" where
  "S_ISREG m = (m AND S_IFMT = S_IFREG)"

definition S_ISDIR :: "mode_t \<Rightarrow> bool" where
  "S_ISDIR m = (m AND S_IFMT = S_IFDIR)"

subsection \<open>Fatal errors\<close>

text \<open>
  One constructor for each \<^verbatim>\<open>elog(ERROR, ...)\<close> of \<^verbatim>\<open>backup.c\<close>; \<open>External\<close> is a
  fatal error raised inside a function that lives outside \<^verbatim>\<open>backup.c\<close>, with its text;
  \<open>CleanupFailed e e'\<close> is the fatal error \<open>e\<close> whose exit handler raised \<open>e'\<close> in turn.
  The messages are the format strings, without the values filled in.
\<close>

datatype error =
  StandbyError
| NoFullBackup
| NoBackupLabel
| MkdirsOpenError
| MkdirsChmodError
| PgdataMissing
| BackupModeMissing
| CatalogLockError
| AnotherRunning
| CreateDirError
| NoBackupList
| ArchiveInterrupted
| ArchiveTimeout
| InvalidBackupResult
| InvalidTxid
| ClockRewound
| BackupInterrupted
| CantStat string
| FileListOpenError
| ServerVersionMismatch
| CannotGetSetting string
| IncompatibleSetting string
| External string
| CleanupFailed error error

fun error_message :: "error \<Rightarrow> string" where
  "error_message StandbyError = ''Backup cannot run on a standby.''"
| "error_message NoFullBackup =
     ''Valid full backup not found for differential backup. Either create a full backup or validate existing one.''"
| "error_message NoBackupLabel = ''backup_label does not exist in PGDATA.''"
| "error_message MkdirsOpenError = ''can't open make directory script''"
| "error_message MkdirsChmodError = ''can't change mode''"
| "error_message PgdataMissing = ''Required parameter not specified: PGDATA (-D, --pgdata)''"
| "error_message BackupModeMissing =
     ''Required parameter not specified: BACKUP_MODE (-b, --backup-mode)''"
| "error_message CatalogLockError = ''cannot lock backup catalog''"
| "error_message AnotherRunning = ''another pg_arman is running, skipping this backup''"
| "error_message CreateDirError = ''cannot create backup directory''"
| "error_message NoBackupList = ''cannot process any more''"
| "error_message ArchiveInterrupted = ''interrupted during waiting for WAL archiving''"
| "error_message ArchiveTimeout = ''switched WAL could not be archived in 10 seconds''"
| "error_message InvalidBackupResult = ''result of backup command is invalid''"
| "error_message InvalidTxid = ''result of txid_current() is invalid''"
| "error_message ClockRewound =
     ''current time may be rewound. Please retry with full backup mode.''"
| "error_message BackupInterrupted = ''interrupted during backup''"
| "error_message (CantStat p) = ''can't stat backup mode. '' @ p"
| "error_message FileListOpenError = ''can't open file list''"
| "error_message ServerVersionMismatch = ''server version mismatch''"
| "error_message (CannotGetSetting n) = ''cannot get '' @ n"
| "error_message (IncompatibleSetting n) = n @ '' is not compatible''"
| "error_message (External m) = m"
| "error_message (CleanupFailed e e') = error_message e"

text \<open>
  How a call ends: it returns a value, it raises a fatal error (\<^verbatim>\<open>elog(ERROR, ...)\<close> does
  not return), or the model ran out of fuel inside the one loop of \<^verbatim>\<open>backup.c\<close> that has
  no bound of its own (the wait for the next clock second in \<^verbatim>\<open>backup_files\<close>).
\<close>

datatype 'a result = Return 'a | Fatal error | OutOfFuel


section \<open>The environment of \<^verbatim>\<open>backup.c\<close>\<close>

text \<open>
  \<^verbatim>\<open>backup.c\<close> talks to the file system, the clock, the database server and the other
  modules of pg\_arman. None of these is fixed here: the world outside is a value of an
  arbitrary type \<open>'w\<close>, and every outside call takes the world and returns its answer
  with the next world. A call that can raise a fatal error of its own answers \<open>Inl\<close> with
  the text. The theorems hold for every such environment.
\<close>

record PGresult =
  PQntuples :: int
  PQnfields :: int
  PQgetvalue00 :: string

type_synonym block_change = "ForkNumber \<times> RelFileNode \<times> BlockNumber"

record 'w extern =
  \<comment> \<open>libc\<close>
  x_stat :: "string \<Rightarrow> 'w \<Rightarrow> stat_outcome \<times> 'w"
  x_time :: "'w \<Rightarrow> time_t \<times> 'w"
  x_gettimeofday :: "'w \<Rightarrow> (time_t \<times> int) \<times> 'w"
  x_sleep :: "nat \<Rightarrow> 'w \<Rightarrow> 'w"
  x_usleep :: "int \<Rightarrow> 'w \<Rightarrow> 'w"
  x_fopen :: "string \<Rightarrow> string \<Rightarrow> 'w \<Rightarrow> bool \<times> 'w"
  x_fclose :: "'w \<Rightarrow> 'w"
  x_chmod :: "string \<Rightarrow> 'w \<Rightarrow> int \<times> 'w"
  x_strtol :: "string \<Rightarrow> int \<times> bool"
  x_sscanf_u :: "string \<Rightarrow> 32 word option"
  \<comment> \<open>pgut: the interrupt flag set by the signal handler, the connection\<close>
  x_interrupted :: "'w \<Rightarrow> bool \<times> 'w"
  x_connection_is_null :: "'w \<Rightarrow> bool \<times> 'w"
  x_reconnect :: "'w \<Rightarrow> (string + unit) \<times> 'w"
  x_disconnect :: "'w \<Rightarrow> 'w"
  x_execute :: "string \<Rightarrow> string list \<Rightarrow> 'w \<Rightarrow> (string + PGresult option) \<times> 'w"
  x_PQserverVersion :: "'w \<Rightarrow> int \<times> 'w"
  \<comment> \<open>PostgreSQL headers and port library\<close>
  RELSEG_SIZE :: "32 word"
  BLCKSZ :: nat
  XLOG_BLCKSZ :: nat
  PG_VERSION_NUM :: int
  x_relpathperm :: "RelFileNode \<Rightarrow> ForkNumber \<Rightarrow> string"
  x_XLogDataFromLSN :: "string \<Rightarrow> 32 word \<times> 32 word"
  x_XLogFileName :: "TimeLineID \<Rightarrow> XLogRecPtr \<Rightarrow> string"
  x_join_path_components :: "string \<Rightarrow> string \<Rightarrow> string"
  x_JoinPathEnd :: "string \<Rightarrow> string \<Rightarrow> string"
  x_path_is_prefix_of_path :: "string \<Rightarrow> string \<Rightarrow> bool"
  x_last_dir_separator :: "string \<Rightarrow> string option"
  \<comment> \<open>the other modules of pg\_arman\<close>
  x_sanityChecks :: "'w \<Rightarrow> (string + unit) \<times> 'w"
  x_get_current_timeline :: "'w \<Rightarrow> (string + TimeLineID) \<times> 'w"
  x_time2iso :: "time_t \<Rightarrow> string"
  x_pgBackupGetPath :: "pgBackup \<Rightarrow> string option \<Rightarrow> string"
  x_pgBackupWriteIni :: "pgBackup \<Rightarrow> 'w \<Rightarrow> (string + unit) \<times> 'w"
  x_pgBackupCreateDir :: "pgBackup \<Rightarrow> 'w \<Rightarrow> (string + int) \<times> 'w"
  x_pgBackupDelete :: "int \<Rightarrow> int \<Rightarrow> 'w \<Rightarrow> (string + unit) \<times> 'w"
  x_catalog_lock :: "'w \<Rightarrow> (string + int) \<times> 'w"
  x_catalog_unlock :: "'w \<Rightarrow> 'w"
  x_catalog_get_backup_list :: "'w \<Rightarrow> (string + pgBackup list option) \<times> 'w"
  x_dir_list_file :: "string \<Rightarrow> bool \<Rightarrow> bool \<Rightarrow> bool \<Rightarrow> 'w \<Rightarrow> (string + pgFile list) \<times> 'w"
  x_dir_print_mkdirs_sh :: "pgFile list \<Rightarrow> string \<Rightarrow> 'w \<Rightarrow> (string + unit) \<times> 'w"
  x_dir_read_file_list :: "string \<Rightarrow> string \<Rightarrow> 'w \<Rightarrow> (string + pgFile list) \<times> 'w"
  x_dir_print_file_list :: "pgFile list \<Rightarrow> string \<Rightarrow> 'w \<Rightarrow> (string + unit) \<times> 'w"
  x_dir_create_dir :: "string \<Rightarrow> 'w \<Rightarrow> (string + unit) \<times> 'w"
  x_copy_file :: "string \<Rightarrow> string \<Rightarrow> pgFile \<Rightarrow> 'w \<Rightarrow> (string + bool \<times> pgFile) \<times> 'w"
  x_backup_data_file ::
    "string \<Rightarrow> string \<Rightarrow> pgFile \<Rightarrow> XLogRecPtr option \<Rightarrow> 'w \<Rightarrow> (string + bool \<times> pgFile) \<times> 'w"
  x_extractPageMap ::
    "string \<Rightarrow> XLogRecPtr \<Rightarrow> TimeLineID \<Rightarrow> XLogRecPtr \<Rightarrow> 'w
       \<Rightarrow> (block_change list \<times> string option) \<times> 'w"

text \<open>
  The globals of the program: the outside world, \<^verbatim>\<open>current\<close>, \<^verbatim>\<open>backup_files_list\<close>,
  \<^verbatim>\<open>in_backup\<close> and \<^verbatim>\<open>server_version\<close>.
\<close>

record 'w pstate =
  world :: 'w
  current :: pgBackup
  backup_files_list :: "pgFile list"
  in_backup :: bool
  server_version :: int


subsection \<open>Observable events\<close>

text \<open>
  What a run does to the outside is recorded as a list of events, in the order of the
  calls: every SQL statement sent with \<^verbatim>\<open>execute\<close>, every poll of the archive-status
  marker, every sleep, every scan of a directory, every file written to the catalog,
  every file handed to a copier and the end of the loop over the files
  (\<open>EvCopyDone\<close>), every assignment to \<^verbatim>\<open>current.status\<close>, and the
  installing, removing and running of the exit handler. An event is recorded when the call
  is issued. The event of a file handed to a copier also records the value that the local
  clock variable \<^verbatim>\<open>tv.tv_sec\<close> of \<^verbatim>\<open>backup_files\<close> has at that moment.
\<close>

datatype event =
  EvExecute string "string list"
| EvArchivePoll string bool
| EvSleep nat
| EvUsleep int
| EvScan string bool bool bool
| EvWriteMkdirs string
| EvReadFileList string
| EvExtractPageMap XLogRecPtr TimeLineID XLogRecPtr
| EvMkdir string
| EvCopyFile string time_t
| EvBackupDataFile string "XLogRecPtr option" time_t
| EvCopyDone
| EvWriteFileList string
| EvWriteIni BackupStatus
| EvSetStatus BackupStatus
| EvAtexitPush
| EvAtexitPop
| EvCleanup

type_synonym ('w, 'a) out = "event list \<times> 'w pstate \<times> 'a result"
type_synonym ('w, 'a) prog = "'w pstate \<Rightarrow> ('w, 'a) out"

definition events_of :: "('w, 'a) out \<Rightarrow> event list" where
  "events_of r = fst r"

definition state_of :: "('w, 'a) out \<Rightarrow> 'w pstate" where
  "state_of r = fst (snd r)"

definition result_of :: "('w, 'a) out \<Rightarrow> 'a result" where
  "result_of r = snd (snd r)"

text \<open>Sequencing: the second part runs only if the first returns.\<close>

definition bind :: "('w, 'a) prog \<Rightarrow> ('a \<Rightarrow> ('w, 'b) prog) \<Rightarrow> ('w, 'b) prog" where
  "bind m f s =
     (case m s of
        (es, s1, Return a) \<Rightarrow> (case f a s1 of (es', s2, r) \<Rightarrow> (es @ es', s2, r))
      | (es, s1, Fatal e) \<Rightarrow> (es, s1, Fatal e)
      | (es, s1, OutOfFuel) \<Rightarrow> (es, s1, OutOfFuel))"

definition ret :: "'a \<Rightarrow> ('w, 'a) prog" where
  "ret a s = ([], s, Return a)"

definition fatal :: "error \<Rightarrow> ('w, 'a) prog" where
  "fatal e s = ([], s, Fatal e)"

definition emit :: "event \<Rightarrow> ('w, unit) prog" where
  "emit e s = ([e], s, Return ())"

definition modify :: "('w pstate \<Rightarrow> 'w pstate) \<Rightarrow> ('w, unit) prog" where
  "modify f s = ([], f s, Return ())"

definition get_state :: "('w, 'w pstate) prog" where
  "get_state s = ([], s, Return s)"

text \<open>Outside calls: one that answers, one that only acts, one that may raise.\<close>

definition ext_call :: "('w \<Rightarrow> 'a \<times> 'w) \<Rightarrow> ('w, 'a) prog" where
  "ext_call f s = (case f (world s) of (a, w) \<Rightarrow> ([], s\<lparr>world := w\<rparr>, Return a))"

definition ext_do :: "('w \<Rightarrow> 'w) \<Rightarrow> ('w, unit) prog" where
  "ext_do f s = ([], s\<lparr>world := f (world s)\<rparr>, Return ())"

definition ext_try :: "('w \<Rightarrow> (string + 'a) \<times> 'w) \<Rightarrow> ('w, 'a) prog" where
  "ext_try f s =
     (case f (world s) of
        (Inl m, w) \<Rightarrow> ([], s\<lparr>world := w\<rparr>, Fatal (External m))
      | (Inr a, w) \<Rightarrow> ([], s\<lparr>world := w\<rparr>, Return a))"

text \<open>
  \<^verbatim>\<open>snprintf(buf, lengthof(buf), ...)\<close> into a buffer of \<^verbatim>\<open>MAXPGPATH\<close> bytes keeps at
  most \<^verbatim>\<open>MAXPGPATH - 1\<close> characters. \<^verbatim>\<open>make_native_path\<close> changes nothing outside
  Windows and is left out.
\<close>

definition snprintf_path :: "string \<Rightarrow> string" where
  "snprintf_path str = take (MAXPGPATH - 1) str"

section \<open>\<^verbatim>\<open>fileExists\<close>, \<^verbatim>\<open>pg_is_standby\<close>\<close>

text \<open>
  \<^verbatim>\<open>
  if (stat(path, &buf) == -1 && errno == ENOENT) return false;
  else if (!S_ISREG(buf.st_mode)) return false;
  else return true;
  \<close>
  When \<^verbatim>\<open>stat\<close> fails with another \<^verbatim>\<open>errno\<close> the second test reads the buffer that
  \<^verbatim>\<open>stat\<close> did not fill.
\<close>

definition fileExists_test :: "stat_outcome \<Rightarrow> bool" where
  "fileExists_test r =
     (case r of
        StatFail errno buf \<Rightarrow>
          (if errno = ENOENT then False
           else if \<not> S_ISREG (st_mode buf) then False
           else True)
      | StatOk buf \<Rightarrow>
          (if \<not> S_ISREG (st_mode buf) then False else True))"

definition fileExists :: "'w extern \<Rightarrow> string \<Rightarrow> ('w, bool) prog" where
  "fileExists X p = bind (ext_call (x_stat X p)) (\<lambda>r. ret (fileExists_test r))"

definition pg_is_standby :: "'w extern \<Rightarrow> string \<Rightarrow> ('w, bool) prog" where
  "pg_is_standby X pgdata = fileExists X (snprintf_path (pgdata @ ''/recovery.conf''))"


section \<open>Server protocol driver\<close>

text \<open>
  Modelled from the spec: the macro \<^verbatim>\<open>TXID_CURRENT_SQL\<close> of \<^verbatim>\<open>pg_arman.h\<close>, which is
  not among the sources: the statement that asks the server for its current transaction
  id, \<^verbatim>\<open>txid_current()\<close> in the message of \<^verbatim>\<open>get_xid\<close>.
\<close>

definition TXID_CURRENT_SQL :: string where
  "TXID_CURRENT_SQL = ''SELECT txid_current();''"

definition execute :: "'w extern \<Rightarrow> string \<Rightarrow> string list \<Rightarrow> ('w, PGresult option) prog" where
  "execute X sql params =
     bind (emit (EvExecute sql params)) (\<lambda>_. ext_try (x_execute X sql params))"

text \<open>
  \<^verbatim>\<open>get_lsn\<close>: the result must be one row of one column;
  \<^verbatim>\<open>*lsn = (XLogRecPtr) ((uint64) xlogid << 32) | xrecoff\<close>.
\<close>

definition get_lsn :: "'w extern \<Rightarrow> PGresult option \<Rightarrow> ('w, XLogRecPtr) prog" where
  "get_lsn X res =
     (case res of
        None \<Rightarrow> fatal InvalidBackupResult
      | Some r \<Rightarrow>
          if PQntuples r \<noteq> 1 \<or> PQnfields r \<noteq> 1 then fatal InvalidBackupResult
          else (case x_XLogDataFromLSN X (PQgetvalue00 r) of
                  (xlogid, xrecoff) \<Rightarrow>
                    ret (push_bit 32 (ucast xlogid :: 64 word) OR ucast xrecoff)))"

definition get_xid :: "'w extern \<Rightarrow> PGresult option \<Rightarrow> ('w, 32 word) prog" where
  "get_xid X res =
     (case res of
        None \<Rightarrow> fatal InvalidTxid
      | Some r \<Rightarrow>
          if PQntuples r \<noteq> 1 \<or> PQnfields r \<noteq> 1 then fatal InvalidTxid
          else (case x_sscanf_u X (PQgetvalue00 r) of
                  None \<Rightarrow> fatal InvalidTxid
                | Some xid \<Rightarrow> ret xid))"

text \<open>
  The \<^verbatim>\<open>pgBackup *backup\<close> argument of \<^verbatim>\<open>pg_start_backup\<close>, \<^verbatim>\<open>wait_for_archive\<close> and
  \<^verbatim>\<open>pg_stop_backup\<close> is \<^verbatim>\<open>&current\<close> or \<^verbatim>\<open>NULL\<close> at every call of this file: it is the
  boolean \<open>backup\<close>, true for \<^verbatim>\<open>&current\<close>.
\<close>

definition pg_start_backup :: "'w extern \<Rightarrow> string \<Rightarrow> bool \<Rightarrow> bool \<Rightarrow> ('w, unit) prog" where
  "pg_start_backup X label smooth backup =
     bind (ext_try (x_reconnect X)) (\<lambda>_.
     bind (execute X ''SELECT pg_start_backup($1, $2)''
             [label, if smooth then ''false'' else ''true'']) (\<lambda>res.
     bind (if backup
           then bind (get_lsn X res)
                  (\<lambda>lsn. modify (\<lambda>s. s\<lparr>current := (current s)\<lparr>start_lsn := lsn\<rparr>\<rparr>))
           else ret ()) (\<lambda>_.
     ext_do (x_disconnect X))))"

text \<open>
  The polling loop of \<^verbatim>\<open>wait_for_archive\<close>:
  \<^verbatim>\<open>
  try_count = 0;
  while (fileExists(ready_path)) {
      sleep(1);
      if (interrupted) elog(ERROR, "interrupted during waiting for WAL archiving");
      try_count++;
      if (try_count > TIMEOUT_ARCHIVE) elog(ERROR, "switched WAL could not be archived ...");
  }
  \<close>
  The argument is the value of \<^verbatim>\<open>try_count\<close> at the head of the loop; the result is its
  value when the loop ends.
\<close>

function wait_archive_loop :: "'w extern \<Rightarrow> string \<Rightarrow> nat \<Rightarrow> ('w, nat) prog" where
  "wait_archive_loop X ready_path try_count s =
     (case fileExists X ready_path s of
        (es, s1, Return present) \<Rightarrow>
          if present then
            (case x_interrupted X (x_sleep X 1 (world s1)) of
               (interrupted, w) \<Rightarrow>
                 if interrupted then
                   (es @ [EvArchivePoll ready_path True, EvSleep 1],
                    s1\<lparr>world := w\<rparr>, Fatal ArchiveInterrupted)
                 else if try_count + 1 > TIMEOUT_ARCHIVE then
                   (es @ [EvArchivePoll ready_path True, EvSleep 1],
                    s1\<lparr>world := w\<rparr>, Fatal ArchiveTimeout)
                 else
                   (case wait_archive_loop X ready_path (try_count + 1) (s1\<lparr>world := w\<rparr>) of
                      (es', s2, r) \<Rightarrow>
                        (es @ [EvArchivePoll ready_path True, EvSleep 1] @ es', s2, r)))
          else (es @ [EvArchivePoll ready_path False], s1, Return try_count)
      | (es, s1, Fatal e) \<Rightarrow> (es, s1, Fatal e)
      | (es, s1, OutOfFuel) \<Rightarrow> (es, s1, OutOfFuel))"
  by pat_completeness auto
termination
  by (relation "measure (\<lambda>(X, ready_path, try_count, s). Suc TIMEOUT_ARCHIVE - try_count)") auto

declare wait_archive_loop.simps [simp del]

text \<open>
  \<^verbatim>\<open>wait_for_archive\<close>, lines 449 to 495: the statement is sent, the position and the
  timeline are read, and the path of the marker is computed, which is the result.
  \<^verbatim>\<open>XLByteToSeg\<close> and \<^verbatim>\<open>XLogFileName\<close> together are \<open>x_XLogFileName\<close>.
\<close>

definition wait_for_archive_query ::
  "'w extern \<Rightarrow> string \<Rightarrow> bool \<Rightarrow> string \<Rightarrow> ('w, string) prog" where
  "wait_for_archive_query X pgdata backup sql =
     bind (ext_try (x_reconnect X)) (\<lambda>_.
     bind (execute X ''SET client_min_messages = warning;'' []) (\<lambda>_.
     bind (execute X sql []) (\<lambda>res.
     bind (get_lsn X res) (\<lambda>lsn.
     bind (ext_try (x_get_current_timeline X)) (\<lambda>t.
     bind (if backup
           then modify (\<lambda>s. s\<lparr>current := (current s)\<lparr>tli := t, stop_lsn := lsn\<rparr>\<rparr>)
           else ret ()) (\<lambda>_.
     bind (execute X TXID_CURRENT_SQL []) (\<lambda>res.
     bind (if backup
           then bind (get_xid X res) (\<lambda>xid.
                bind (ext_call (x_time X)) (\<lambda>now.
                modify (\<lambda>s. s\<lparr>current :=
                  (current s)\<lparr>recovery_xid := xid, recovery_time := now\<rparr>\<rparr>)))
           else ret ()) (\<lambda>_.
     bind (ext_do (x_disconnect X)) (\<lambda>_.
     ret (snprintf_path
            (pgdata @ ''/pg_xlog/archive_status/'' @ x_XLogFileName X t lsn @ ''.ready'')
         ))))))))))"

definition wait_for_archive :: "'w extern \<Rightarrow> string \<Rightarrow> bool \<Rightarrow> string \<Rightarrow> ('w, unit) prog" where
  "wait_for_archive X pgdata backup sql =
     bind (wait_for_archive_query X pgdata backup sql) (\<lambda>ready_path.
     bind (wait_archive_loop X ready_path 0) (\<lambda>try_count.
     ret ()))"

definition pg_stop_backup :: "'w extern \<Rightarrow> string \<Rightarrow> bool \<Rightarrow> ('w, unit) prog" where
  "pg_stop_backup X pgdata backup =
     wait_for_archive X pgdata backup ''SELECT * FROM pg_stop_backup()''"

section \<open>The exit handler\<close>

definition set_status :: "BackupStatus \<Rightarrow> ('w, unit) prog" where
  "set_status st =
     bind (emit (EvSetStatus st)) (\<lambda>_.
     modify (\<lambda>s. s\<lparr>current := (current s)\<lparr>status := st\<rparr>\<rparr>))"

definition pgBackupWriteIni :: "'w extern \<Rightarrow> ('w, unit) prog" where
  "pgBackupWriteIni X =
     bind get_state (\<lambda>s.
     bind (emit (EvWriteIni (status (current s)))) (\<lambda>_.
     ext_try (x_pgBackupWriteIni X (current s))))"

text \<open>
  \<^verbatim>\<open>backup_cleanup(fatal, userdata)\<close>; neither argument is read. \<^verbatim>\<open>pgdata\<close> is not
  \<^verbatim>\<open>NULL\<close> once \<^verbatim>\<open>in_backup\<close> is set.
\<close>

definition backup_cleanup :: "'w extern \<Rightarrow> string \<Rightarrow> ('w, unit) prog" where
  "backup_cleanup X pgdata =
     bind get_state (\<lambda>s.
     if \<not> in_backup s then ret ()
     else
       bind (fileExists X (snprintf_path (pgdata @ ''/backup_label''))) (\<lambda>label_exists.
       bind (if label_exists then pg_stop_backup X pgdata False else ret ()) (\<lambda>_.
       bind get_state (\<lambda>s.
       if status (current s) = BACKUP_STATUS_RUNNING \<and> end_time (current s) = 0 then
         bind (ext_call (x_time X)) (\<lambda>now.
         bind (modify (\<lambda>s. s\<lparr>current := (current s)\<lparr>end_time := now\<rparr>\<rparr>)) (\<lambda>_.
         bind (set_status BACKUP_STATUS_ERROR) (\<lambda>_.
         pgBackupWriteIni X)))
       else ret ()))))"


section \<open>Copying the files\<close>

text \<open>
  \<^verbatim>\<open>strcmp\<close> compares byte by byte, a proper prefix coming first: the order of
  \<^verbatim>\<open>HOL-Library.List_Lexorder\<close> over \<^verbatim>\<open>HOL-Library.Char_ord\<close>. Only the sign
  of the result is specified.
\<close>

definition strcmp :: "string \<Rightarrow> string \<Rightarrow> int" where
  "strcmp a b = (if a = b then 0 else if a < b then - 1 else 1)"

text \<open>
  Modelled from the spec: \<^verbatim>\<open>pgFileComparePath\<close> and \<^verbatim>\<open>pgFileComparePathDesc\<close> are
  declared in \<^verbatim>\<open>pg_arman.h\<close> and defined in \<^verbatim>\<open>dir.c\<close>, which is not among the
  sources. File entries are identified by their path, and \<^verbatim>\<open>backup_files\<close> calls the
  first one under the comment ``sort pathname ascending'': they compare the paths with
  \<^verbatim>\<open>strcmp\<close>.
\<close>

definition pgFileComparePath :: "pgFile \<Rightarrow> pgFile \<Rightarrow> int" where
  "pgFileComparePath f1 f2 = strcmp (path f1) (path f2)"

definition pgFileComparePathDesc :: "pgFile \<Rightarrow> pgFile \<Rightarrow> int" where
  "pgFileComparePathDesc f1 f2 = - pgFileComparePath f1 f2"

text \<open>
  \<^verbatim>\<open>parray_qsort\<close> is \<^verbatim>\<open>qsort\<close> on the array of pointers. \<^verbatim>\<open>qsort\<close> leaves the order
  of entries that compare equal open; the model keeps their order.
\<close>

definition parray_qsort_path :: "pgFile list \<Rightarrow> pgFile list" where
  "parray_qsort_path files = sort_key path files"

definition parray_qsort_path_desc :: "pgFile list \<Rightarrow> pgFile list" where
  "parray_qsort_path_desc files = rev (sort_key path files)"

text \<open>
  \<^verbatim>\<open>parray_bsearch\<close> is \<^verbatim>\<open>bsearch\<close> on the array of pointers: binary search between
  \<open>l\<close> (inclusive) and \<open>u\<close> (exclusive), the key being the first argument of the comparison.
\<close>

function bsearch_loop :: "('a \<Rightarrow> 'a \<Rightarrow> int) \<Rightarrow> 'a \<Rightarrow> 'a list \<Rightarrow> nat \<Rightarrow> nat \<Rightarrow> 'a option" where
  "bsearch_loop compare key base l u =
     (if l < u then
        (let idx = (l + u) div 2; comparison = compare key (base ! idx) in
         if comparison < 0 then bsearch_loop compare key base l idx
         else if comparison > 0 then bsearch_loop compare key base (idx + 1) u
         else Some (base ! idx))
      else None)"
  by pat_completeness auto
termination
  by (relation "measure (\<lambda>(compare, key, base, l, u). u - l)") auto

declare bsearch_loop.simps [simp del]

definition parray_bsearch :: "'a list \<Rightarrow> 'a \<Rightarrow> ('a \<Rightarrow> 'a \<Rightarrow> int) \<Rightarrow> 'a option" where
  "parray_bsearch array key compare = bsearch_loop compare key array 0 (length array)"

text \<open>
  The wait for the next second:
  \<^verbatim>\<open>
  gettimeofday(&tv, NULL);
  while (tv.tv_sec <= file->mtime) {
      usleep(1000000 - tv.tv_usec);
      gettimeofday(&tv, NULL);
  }
  \<close>
  The loop has no bound of its own: \<open>fuel\<close> bounds the number of sleeps, and the model
  ends \<open>OutOfFuel\<close> when the clock has not passed \<open>mtime\<close> by then. The argument \<open>tv\<close> is
  the clock value read before the test, as (\<^verbatim>\<open>tv_sec\<close>, \<^verbatim>\<open>tv_usec\<close>).
\<close>

primrec wait_next_second ::
  "nat \<Rightarrow> 'w extern \<Rightarrow> time_t \<Rightarrow> time_t \<times> int \<Rightarrow> ('w, time_t \<times> int) prog" where
  "wait_next_second 0 X file_mtime tv =
     (if fst tv \<le> file_mtime then (\<lambda>s. ([], s, OutOfFuel)) else ret tv)"
| "wait_next_second (Suc fuel) X file_mtime tv =
     (if fst tv \<le> file_mtime then
        bind (emit (EvUsleep (1000000 - snd tv))) (\<lambda>_.
        bind (ext_do (x_usleep X (1000000 - snd tv))) (\<lambda>_.
        bind (ext_call (x_gettimeofday X)) (\<lambda>tv'.
        wait_next_second fuel X file_mtime tv')))
      else ret tv)"

declare wait_next_second.simps [simp del]

text \<open>
  The lookup of the file in the list of the previous backup. With a prefix (\<open>pfx\<close>) the list is
  searched from the front, comparing the paths below \<^verbatim>\<open>from_root\<close> (every entry lies under
  \<^verbatim>\<open>from_root\<close>, so \<^verbatim>\<open>path + strlen(from_root) + 1\<close> is the rest of the path); without,
  it is \<^verbatim>\<open>parray_bsearch\<close> with \<^verbatim>\<open>pgFileComparePath\<close>.
\<close>

definition find_prev_file ::
  "'w extern \<Rightarrow> string \<Rightarrow> string option \<Rightarrow> pgFile list \<Rightarrow> pgFile \<Rightarrow> pgFile option" where
  "find_prev_file X from_root pfx prev_files file =
     (case pfx of
        Some pre \<Rightarrow>
          find (\<lambda>p. strcmp
                       (x_join_path_components X pre (drop (length from_root + 1) (path file)))
                       (drop (length from_root + 1) (path p)) = 0)
            prev_files
      | None \<Rightarrow> parray_bsearch prev_files file pgFileComparePath)"

text \<open>
  One turn of the loop of \<^verbatim>\<open>backup_files\<close>, for the entry \<open>file\<close>, with the value \<open>tv\<close> of
  the local clock variable. It returns the entry as the turn leaves it and the new \<open>tv\<close>.
  The progress messages of verbose mode are left out.
\<close>

definition skipped :: "pgFile \<Rightarrow> pgFile" where
  "skipped file = file\<lparr>write_size := BYTES_INVALID\<rparr>"

text \<open>Lines 765 to 774: when the clock shows the second of \<^verbatim>\<open>mtime\<close>, wait for the next.\<close>

definition wait_mtime_passed ::
  "nat \<Rightarrow> 'w extern \<Rightarrow> pgFile \<Rightarrow> time_t \<times> int \<Rightarrow> ('w, time_t \<times> int) prog" where
  "wait_mtime_passed fuel X file tv =
     (if fst tv = mtime file
      then bind (ext_call (x_gettimeofday X)) (\<lambda>tv'.
           wait_next_second fuel X (mtime file) tv')
      else ret tv)"

text \<open>Lines 776 to 787: the file goes to one of the two copiers.\<close>

definition copy_one_file ::
  "'w extern \<Rightarrow> string \<Rightarrow> string \<Rightarrow> XLogRecPtr option \<Rightarrow> time_t \<times> int \<Rightarrow> pgFile
     \<Rightarrow> ('w, (time_t \<times> int) \<times> pgFile) prog" where
  "copy_one_file X from_root to_root lsn tv file =
     bind (if is_datafile file
           then bind (emit (EvBackupDataFile (path file) lsn (fst tv))) (\<lambda>_.
                ext_try (x_backup_data_file X from_root to_root file lsn))
           else bind (emit (EvCopyFile (path file) (fst tv))) (\<lambda>_.
                ext_try (x_copy_file X from_root to_root file))) (\<lambda>(copied, file').
     if \<not> copied then ret (tv, skipped file') else ret (tv, file'))"

definition copy_regular_file ::
  "nat \<Rightarrow> 'w extern \<Rightarrow> string \<Rightarrow> string \<Rightarrow> XLogRecPtr option \<Rightarrow> time_t \<times> int \<Rightarrow> pgFile
     \<Rightarrow> ('w, (time_t \<times> int) \<times> pgFile) prog" where
  "copy_regular_file fuel X from_root to_root lsn tv file =
     bind (wait_mtime_passed fuel X file tv) (\<lambda>tv1.
     copy_one_file X from_root to_root lsn tv1 file)"

definition backup_file ::
  "nat \<Rightarrow> 'w extern \<Rightarrow> bool \<Rightarrow> string \<Rightarrow> string \<Rightarrow> pgFile list option \<Rightarrow> XLogRecPtr option
     \<Rightarrow> string option \<Rightarrow> time_t \<times> int \<Rightarrow> pgFile \<Rightarrow> ('w, (time_t \<times> int) \<times> pgFile) prog" where
  "backup_file fuel X check from_root to_root prev_files lsn pfx tv file =
     (if fst tv < mtime file then fatal ClockRewound
      else
        bind (ext_call (x_interrupted X)) (\<lambda>interrupted.
        if interrupted then fatal BackupInterrupted
        else
          bind (ext_call (x_stat X (path file))) (\<lambda>st.
          case st of
            StatFail errno buf \<Rightarrow>
              if errno = ENOENT then ret (tv, skipped file)
              else fatal (CantStat (path file))
          | StatOk buf \<Rightarrow>
              if S_ISDIR (st_mode buf) then
                bind (if \<not> check
                      then bind (emit (EvMkdir
                                   (x_join_path_components X to_root
                                      (x_JoinPathEnd X (path file) from_root)))) (\<lambda>_.
                           ext_try (x_dir_create_dir X
                                   (x_join_path_components X to_root
                                      (x_JoinPathEnd X (path file) from_root))))
                      else ret ()) (\<lambda>_.
                ret (tv, file))
              else if S_ISREG (st_mode buf) then
                (if (case prev_files of
                       None \<Rightarrow> False
                     | Some prev \<Rightarrow>
                         (case find_prev_file X from_root pfx prev file of
                            None \<Rightarrow> False
                          | Some prev_file \<Rightarrow> mtime prev_file = mtime file))
                 then ret (tv, skipped file)
                 else copy_regular_file fuel X from_root to_root lsn tv file)
              else ret (tv, file))))"

text \<open>
  The loop runs over the entries of the sorted list; each turn writes its entry back in
  place. The result is the value of \<^verbatim>\<open>tv\<close> when the loop ends.
  \<^verbatim>\<open>backup_files\<close> is called once, on \<^verbatim>\<open>backup_files_list\<close>.
\<close>

primrec backup_files_loop ::
  "nat \<Rightarrow> 'w extern \<Rightarrow> bool \<Rightarrow> string \<Rightarrow> string \<Rightarrow> pgFile list option \<Rightarrow> XLogRecPtr option
     \<Rightarrow> string option \<Rightarrow> pgFile list \<Rightarrow> nat \<Rightarrow> time_t \<times> int
     \<Rightarrow> ('w, time_t \<times> int) prog" where
  "backup_files_loop fuel X check from_root to_root prev_files lsn pfx [] i tv = ret tv"
| "backup_files_loop fuel X check from_root to_root prev_files lsn pfx (file # rest) i tv =
     bind (backup_file fuel X check from_root to_root prev_files lsn pfx tv file)
       (\<lambda>(tv', file').
     bind (modify (\<lambda>s. s\<lparr>backup_files_list := (backup_files_list s)[i := file']\<rparr>)) (\<lambda>_.
     backup_files_loop fuel X check from_root to_root prev_files lsn pfx rest (Suc i) tv'))"

definition backup_files ::
  "nat \<Rightarrow> 'w extern \<Rightarrow> bool \<Rightarrow> string \<Rightarrow> string \<Rightarrow> pgFile list option \<Rightarrow> XLogRecPtr option
     \<Rightarrow> string option \<Rightarrow> ('w, unit) prog" where
  "backup_files fuel X check from_root to_root prev_files lsn pfx =
     bind (modify (\<lambda>s. s\<lparr>backup_files_list := parray_qsort_path (backup_files_list s)\<rparr>)) (\<lambda>_.
     bind (ext_call (x_gettimeofday X)) (\<lambda>tv.
     bind get_state (\<lambda>s.
     bind (backup_files_loop fuel X check from_root to_root prev_files lsn pfx
             (backup_files_list s) 0 tv) (\<lambda>_.
     emit EvCopyDone))))"


section \<open>The file list\<close>

definition isdigit :: "char \<Rightarrow> bool" where
  "isdigit c = (CHR ''0'' \<le> c \<and> c \<le> CHR ''9'')"

text \<open>
  The marking of one entry in \<^verbatim>\<open>add_files\<close>. \<^verbatim>\<open>last_dir_separator\<close> answers the rest of
  the string from the last separator on, or \<^verbatim>\<open>NULL\<close>; \<^verbatim>\<open>fname[0]\<close> of an empty string is
  the terminating zero, which is no digit.
\<close>

definition mark_datafile :: "'w extern \<Rightarrow> string \<Rightarrow> bool \<Rightarrow> pgFile \<Rightarrow> pgFile" where
  "mark_datafile X root is_pgdata file =
     (if \<not> S_ISREG (mode file) then file
      else
        (let relative = drop (length root + 1) (path file) in
         if is_pgdata \<and>
            \<not> x_path_is_prefix_of_path X ''base'' relative \<and>
            \<not> x_path_is_prefix_of_path X ''global'' relative \<and>
            \<not> x_path_is_prefix_of_path X ''pg_tblspc'' relative
         then file
         else
           (let fname = (case x_last_dir_separator X relative of
                           None \<Rightarrow> relative
                         | Some sep \<Rightarrow> tl sep) in
            if \<not> (case fname of [] \<Rightarrow> False | c # _ \<Rightarrow> isdigit c) then file
            else file\<lparr>is_datafile := True\<rparr>)))"

text \<open>
  \<^verbatim>\<open>dir_list_file(files, root, exclude, omit_symlink, add_root)\<close> appends what it finds
  under \<open>root\<close> to \<open>files\<close>; the exclude list is \<^verbatim>\<open>NULL\<close> or \<^verbatim>\<open>pgdata_exclude\<close>, a boolean
  here.
\<close>

definition dir_list_file :: "'w extern \<Rightarrow> string \<Rightarrow> bool \<Rightarrow> bool \<Rightarrow> bool \<Rightarrow> ('w, pgFile list) prog" where
  "dir_list_file X root exclude omit_symlink add_root =
     bind (emit (EvScan root exclude omit_symlink add_root)) (\<lambda>_.
     ext_try (x_dir_list_file X root exclude omit_symlink add_root))"

definition add_files :: "'w extern \<Rightarrow> string \<Rightarrow> bool \<Rightarrow> bool \<Rightarrow> ('w, unit) prog" where
  "add_files X root add_root is_pgdata =
     bind (dir_list_file X root True True add_root) (\<lambda>list_file.
     modify (\<lambda>s. s\<lparr>backup_files_list :=
       backup_files_list s @ map (mark_datafile X root is_pgdata) list_file\<rparr>))"

text \<open>
  Modelled from the spec: the names of the files of a backup (\<^verbatim>\<open>MKDIRS_SH_FILE\<close>,
  \<^verbatim>\<open>DATABASE_FILE_LIST\<close>, \<^verbatim>\<open>DATABASE_DIR\<close> of \<^verbatim>\<open>pg_arman.h\<close>), from the persisted layout.
\<close>

definition MKDIRS_SH_FILE :: string where
  "MKDIRS_SH_FILE = ''mkdirs.sh''"

definition DATABASE_FILE_LIST :: string where
  "DATABASE_FILE_LIST = ''file_database.txt''"

definition DATABASE_DIR :: string where
  "DATABASE_DIR = ''database''"

definition create_file_list ::
  "'w extern \<Rightarrow> bool \<Rightarrow> string \<Rightarrow> string \<Rightarrow> string option \<Rightarrow> bool \<Rightarrow> ('w, unit) prog" where
  "create_file_list X check root subdir pfx is_append =
     (if \<not> check then
        bind get_state (\<lambda>s.
        bind (emit (EvWriteFileList (x_pgBackupGetPath X (current s) (Some subdir)))) (\<lambda>_.
        bind (ext_call (x_fopen X (x_pgBackupGetPath X (current s) (Some subdir))
                (if is_append then ''at'' else ''wt''))) (\<lambda>opened.
        if \<not> opened then fatal FileListOpenError
        else
          bind (ext_try (x_dir_print_file_list X (backup_files_list s) root)) (\<lambda>_.
          ext_do (x_fclose X)))))
      else ret ())"

section \<open>The page map\<close>

text \<open>\<^verbatim>\<open>%u\<close>: an unsigned number in decimal.\<close>

fun fmt_u :: "nat \<Rightarrow> string" where
  "fmt_u n =
     (if n < 10 then [char_of (48 + n)]
      else fmt_u (n div 10) @ [char_of (48 + n mod 10)])"

declare fmt_u.simps [simp del]

definition datasegpath :: "'w extern \<Rightarrow> RelFileNode \<Rightarrow> ForkNumber \<Rightarrow> BlockNumber \<Rightarrow> string" where
  "datasegpath X rnode forknum segno =
     (if segno > 0 then x_relpathperm X rnode forknum @ ''.'' @ fmt_u (unat segno)
      else x_relpathperm X rnode forknum)"

text \<open>
  Modelled from the spec: \<^verbatim>\<open>datapagemap_add\<close> (\<^verbatim>\<open>datapagemap.c\<close>, not among the sources)
  inserts a block number into the page map of a file, a set of block numbers.
\<close>

definition datapagemap_add :: "BlockNumber set \<Rightarrow> BlockNumber \<Rightarrow> BlockNumber set" where
  "datapagemap_add pm blkno = insert blkno pm"

text \<open>
  The search of \<^verbatim>\<open>process_block_change\<close>: the index of the first entry of the list with
  the given path.
  \<^verbatim>\<open>
  for (j = 0; j < parray_num(backup_files_list); j++) {
      pgFile *p = (pgFile *) parray_get(backup_files_list, j);
      if (strcmp(p->path, path) == 0) { file_item = p; break; }
  }
  \<close>
\<close>

primrec find_file_item :: "string \<Rightarrow> pgFile list \<Rightarrow> nat option" where
  "find_file_item fpath [] = None"
| "find_file_item fpath (p # ps) =
     (if strcmp (path p) fpath = 0 then Some 0
      else map_option Suc (find_file_item fpath ps))"

text \<open>
  \<^verbatim>\<open>segno\<close> is declared \<^verbatim>\<open>int\<close> and passed on as a \<^verbatim>\<open>BlockNumber\<close>: the conversion there
  and back is the identity on 32 bits. The division is the unsigned one; a
  \<^verbatim>\<open>RELSEG_SIZE\<close> of zero does not compile to a defined program.
\<close>

definition process_block_change ::
  "'w extern \<Rightarrow> string \<Rightarrow> ForkNumber \<Rightarrow> RelFileNode \<Rightarrow> BlockNumber \<Rightarrow> pgFile list \<Rightarrow> pgFile list" where
  "process_block_change X pgdata forknum rnode blkno files =
     (let segno = blkno div RELSEG_SIZE X;
          blkno_inseg = blkno mod RELSEG_SIZE X;
          rel_path = datasegpath X rnode forknum segno;
          fpath = pgdata @ ''/'' @ rel_path
      in case find_file_item fpath files of
           Some j \<Rightarrow>
             files[j := (files ! j)\<lparr>pagemap := datapagemap_add (pagemap (files ! j)) blkno_inseg\<rparr>]
         | None \<Rightarrow> files)"

text \<open>
  Modelled from the spec: \<^verbatim>\<open>extractPageMap\<close> (the WAL reader, not among the sources)
  reads the archived WAL between two positions and calls \<^verbatim>\<open>process_block_change\<close> once
  for each block a record dirties. The outside call answers the blocks reported, in
  order, and the text of the fatal error that ended the scan, if one did.
\<close>

definition extractPageMap ::
  "'w extern \<Rightarrow> string \<Rightarrow> string \<Rightarrow> XLogRecPtr \<Rightarrow> TimeLineID \<Rightarrow> XLogRecPtr \<Rightarrow> ('w, unit) prog" where
  "extractPageMap X pgdata arclog_path startpoint t endpoint =
     bind (emit (EvExtractPageMap startpoint t endpoint)) (\<lambda>_.
     bind (ext_call (x_extractPageMap X arclog_path startpoint t endpoint)) (\<lambda>(changes, err).
     bind (modify (\<lambda>s. s\<lparr>backup_files_list :=
             foldl (\<lambda>files (forknum, rnode, blkno).
                      process_block_change X pgdata forknum rnode blkno files)
               (backup_files_list s) changes\<rparr>)) (\<lambda>_.
     case err of None \<Rightarrow> ret () | Some m \<Rightarrow> fatal (External m))))"

section \<open>The catalog\<close>

text \<open>
  Modelled from the spec: \<^verbatim>\<open>catalog_get_last_data_backup\<close> (\<^verbatim>\<open>catalog.c\<close>, not among the
  sources) ``returns the most recent DONE FULL record on the given timeline, or nothing'',
  from a list ``sorted by start time descending'': the first such record of the list.
\<close>

definition catalog_get_last_data_backup :: "pgBackup list \<Rightarrow> TimeLineID \<Rightarrow> pgBackup option" where
  "catalog_get_last_data_backup backup_list t =
     find (\<lambda>b. status b = BACKUP_STATUS_DONE \<and> backup_mode b = BACKUP_MODE_FULL \<and> tli b = t)
       backup_list"

section \<open>\<^verbatim>\<open>do_backup_database\<close>\<close>

text \<open>Lines 76 to 108: the standby test, the sanity checks, the timeline, the parent.\<close>

definition do_backup_database_checks :: "'w extern \<Rightarrow> string \<Rightarrow> pgBackup list \<Rightarrow> ('w, unit) prog" where
  "do_backup_database_checks X pgdata backup_list =
     bind (pg_is_standby X pgdata) (\<lambda>standby.
     if standby then fatal StandbyError
     else
       bind (modify (\<lambda>s. s\<lparr>current := (current s)\<lparr>data_bytes := 0\<rparr>\<rparr>)) (\<lambda>_.
       bind (ext_try (x_sanityChecks X)) (\<lambda>_.
       bind (ext_try (x_get_current_timeline X)) (\<lambda>t.
       bind (modify (\<lambda>s. s\<lparr>current := (current s)\<lparr>tli := t\<rparr>\<rparr>)) (\<lambda>_.
       bind get_state (\<lambda>s.
       if backup_mode (current s) = BACKUP_MODE_DIFF_PAGE then
         (case catalog_get_last_data_backup backup_list (tli (current s)) of
            None \<Rightarrow> fatal NoFullBackup
          | Some prev_backup \<Rightarrow> ret ())
       else ret ()))))))"

text \<open>
  Lines 110 to 127: the start of the backup on the server, and the test for
  \<^verbatim>\<open>backup_label\<close>. The label has room for the time and the tag.
\<close>

definition do_backup_database_start :: "'w extern \<Rightarrow> string \<Rightarrow> bool \<Rightarrow> ('w, unit) prog" where
  "do_backup_database_start X pgdata smooth_checkpoint =
     bind get_state (\<lambda>s.
     bind (pg_start_backup X (x_time2iso X (start_time (current s)) @ '' with pg_arman'')
             smooth_checkpoint True) (\<lambda>_.
     bind (fileExists X (snprintf_path (pgdata @ ''/backup_label''))) (\<lambda>has_backup_label.
     if \<not> has_backup_label then
       bind (pg_stop_backup X pgdata False) (\<lambda>_. fatal NoBackupLabel)
     else ret ())))"

text \<open>Lines 129 to 153: the directories, for \<^verbatim>\<open>mkdirs.sh\<close>.\<close>

definition do_backup_database_mkdirs :: "'w extern \<Rightarrow> string \<Rightarrow> bool \<Rightarrow> ('w, unit) prog" where
  "do_backup_database_mkdirs X pgdata check =
     bind (modify (\<lambda>s. s\<lparr>backup_files_list := []\<rparr>)) (\<lambda>_.
     bind (dir_list_file X pgdata False False False) (\<lambda>dirs.
     bind (modify (\<lambda>s. s\<lparr>backup_files_list := backup_files_list s @ dirs\<rparr>)) (\<lambda>_.
     bind (if \<not> check then
             bind get_state (\<lambda>s.
             bind (emit (EvWriteMkdirs
                     (x_pgBackupGetPath X (current s) (Some MKDIRS_SH_FILE)))) (\<lambda>_.
             bind (ext_call (x_fopen X
                     (x_pgBackupGetPath X (current s) (Some MKDIRS_SH_FILE)) ''wt'')) (\<lambda>opened.
             if \<not> opened then fatal MkdirsOpenError
             else
               bind (ext_try (x_dir_print_mkdirs_sh X (backup_files_list s) pgdata)) (\<lambda>_.
               bind (ext_do (x_fclose X)) (\<lambda>_.
               bind (ext_call (x_chmod X
                       (x_pgBackupGetPath X (current s) (Some MKDIRS_SH_FILE)))) (\<lambda>rc.
               if rc = - 1 then fatal MkdirsChmodError else ret ()))))))
           else ret ()) (\<lambda>_.
     modify (\<lambda>s. s\<lparr>backup_files_list := []\<rparr>)))))"

text \<open>
  Lines 155 to 173: the file list and the start position of the parent. The result is
  \<^verbatim>\<open>prev_files\<close>, \<^verbatim>\<open>lsn\<close> and \<^verbatim>\<open>prev_backup\<close>, each \<^verbatim>\<open>NULL\<close> outside differential mode.
  The lookup has answered a record at line 103 with the same arguments; were it to answer
  \<^verbatim>\<open>NULL\<close> here, the program would read through a null pointer.
\<close>

definition do_backup_database_prev ::
  "'w extern \<Rightarrow> string \<Rightarrow> pgBackup list
     \<Rightarrow> ('w, pgFile list option \<times> XLogRecPtr option \<times> pgBackup option) prog" where
  "do_backup_database_prev X pgdata backup_list =
     bind get_state (\<lambda>s.
     if backup_mode (current s) = BACKUP_MODE_DIFF_PAGE then
       (case catalog_get_last_data_backup backup_list (tli (current s)) of
          None \<Rightarrow> fatal (External ''prev_backup is NULL'')
        | Some prev_backup \<Rightarrow>
            bind (emit (EvReadFileList
                    (x_pgBackupGetPath X prev_backup (Some DATABASE_FILE_LIST)))) (\<lambda>_.
            bind (ext_try (x_dir_read_file_list X pgdata
                    (x_pgBackupGetPath X prev_backup (Some DATABASE_FILE_LIST)))) (\<lambda>prev_files.
            ret (Some prev_files, Some (start_lsn prev_backup), Some prev_backup))))
     else ret (None, None, None))"

text \<open>Lines 175 to 182: the list of the files to back up; the result is the target path.\<close>

definition do_backup_database_list :: "'w extern \<Rightarrow> string \<Rightarrow> ('w, string) prog" where
  "do_backup_database_list X pgdata =
     bind (modify (\<lambda>s. s\<lparr>backup_files_list := []\<rparr>)) (\<lambda>_.
     bind (add_files X pgdata False True) (\<lambda>_.
     bind get_state (\<lambda>s.
     ret (x_pgBackupGetPath X (current s) (Some DATABASE_DIR)))))"

text \<open>Lines 184 to 210: in differential mode, the WAL switch and the page map.\<close>

definition do_backup_database_pagemap ::
  "'w extern \<Rightarrow> string \<Rightarrow> string \<Rightarrow> pgBackup option \<Rightarrow> ('w, unit) prog" where
  "do_backup_database_pagemap X pgdata arclog_path prev_backup =
     bind get_state (\<lambda>s.
     if backup_mode (current s) = BACKUP_MODE_DIFF_PAGE then
       bind (wait_for_archive X pgdata True ''SELECT * FROM pg_switch_xlog()'') (\<lambda>_.
       bind (modify (\<lambda>s. s\<lparr>backup_files_list :=
               parray_qsort_path_desc (backup_files_list s)\<rparr>)) (\<lambda>_.
       bind get_state (\<lambda>s.
       case prev_backup of
         None \<Rightarrow> fatal (External ''prev_backup is NULL'')
       | Some pb \<Rightarrow>
           extractPageMap X pgdata arclog_path (start_lsn pb) (tli (current s))
             (start_lsn (current s)))))
     else ret ())"

text \<open>Lines 212 to 218: the copy, the stop of the backup, the file list.\<close>

definition do_backup_database_copy ::
  "nat \<Rightarrow> 'w extern \<Rightarrow> string \<Rightarrow> bool \<Rightarrow> string \<Rightarrow> pgFile list option \<Rightarrow> XLogRecPtr option
     \<Rightarrow> ('w, unit) prog" where
  "do_backup_database_copy fuel X pgdata check to_root prev_files lsn =
     bind (backup_files fuel X check pgdata to_root prev_files lsn None) (\<lambda>_.
     bind (pg_stop_backup X pgdata True) (\<lambda>_.
     create_file_list X check pgdata DATABASE_FILE_LIST None False))"

text \<open>Lines 220 to 241: the summary of the sizes; the result is the list of files.\<close>

definition count_data_bytes :: "BackupMode \<Rightarrow> int \<Rightarrow> pgFile \<Rightarrow> int" where
  "count_data_bytes m bytes file =
     (if \<not> S_ISREG (mode file) then bytes
      else if m = BACKUP_MODE_DIFF_PAGE then bytes + read_size file
      else if m = BACKUP_MODE_FULL then bytes + file_size file
      else bytes)"

definition do_backup_database_summary :: "('w, pgFile list) prog" where
  "do_backup_database_summary =
     bind (modify (\<lambda>s. s\<lparr>current := (current s)\<lparr>data_bytes :=
             foldl (count_data_bytes (backup_mode (current s)))
               (data_bytes (current s)) (backup_files_list s)\<rparr>\<rparr>)) (\<lambda>_.
     bind get_state (\<lambda>s. ret (backup_files_list s)))"

text \<open>Lines 110 to 241: what follows the checks.\<close>

definition do_backup_database_steps ::
  "nat \<Rightarrow> 'w extern \<Rightarrow> string \<Rightarrow> string \<Rightarrow> bool \<Rightarrow> pgBackup list \<Rightarrow> bool
     \<Rightarrow> ('w, pgFile list) prog" where
  "do_backup_database_steps fuel X pgdata arclog_path check backup_list smooth_checkpoint =
     bind (do_backup_database_start X pgdata smooth_checkpoint) (\<lambda>_.
     bind (do_backup_database_mkdirs X pgdata check) (\<lambda>_.
     bind (do_backup_database_prev X pgdata backup_list) (\<lambda>(prev_files, lsn, prev_backup).
     bind (do_backup_database_list X pgdata) (\<lambda>to_root.
     bind (do_backup_database_pagemap X pgdata arclog_path prev_backup) (\<lambda>_.
     bind (do_backup_database_copy fuel X pgdata check to_root prev_files lsn) (\<lambda>_.
     do_backup_database_summary))))))"

definition do_backup_database ::
  "nat \<Rightarrow> 'w extern \<Rightarrow> string \<Rightarrow> string \<Rightarrow> bool \<Rightarrow> pgBackup list \<Rightarrow> bool
     \<Rightarrow> ('w, pgFile list) prog" where
  "do_backup_database fuel X pgdata arclog_path check backup_list smooth_checkpoint =
     bind (do_backup_database_checks X pgdata backup_list) (\<lambda>_.
     do_backup_database_steps fuel X pgdata arclog_path check backup_list smooth_checkpoint)"

section \<open>\<^verbatim>\<open>do_backup\<close>\<close>

definition confirm_block_size :: "'w extern \<Rightarrow> string \<Rightarrow> int \<Rightarrow> ('w, unit) prog" where
  "confirm_block_size X name blcksz =
     bind (execute X ''SELECT current_setting($1)'' [name]) (\<lambda>res.
     case res of
       None \<Rightarrow> fatal (CannotGetSetting name)
     | Some r \<Rightarrow>
         if PQntuples r \<noteq> 1 \<or> PQnfields r \<noteq> 1 then fatal (CannotGetSetting name)
         else (case x_strtol X (PQgetvalue00 r) of
                 (bsz, trailing) \<Rightarrow>
                   if trailing \<or> bsz \<noteq> blcksz then fatal (IncompatibleSetting name)
                   else ret ()))"

definition check_server_version :: "'w extern \<Rightarrow> ('w, unit) prog" where
  "check_server_version X =
     bind get_state (\<lambda>s.
     if server_version s > 0 then ret ()
     else
       bind (ext_call (x_connection_is_null X)) (\<lambda>my_conn.
       bind (if my_conn then ext_try (x_reconnect X) else ret ()) (\<lambda>_.
       bind (ext_call (x_PQserverVersion X)) (\<lambda>v.
       bind (modify (\<lambda>s. s\<lparr>server_version := v\<rparr>)) (\<lambda>_.
       if v \<noteq> PG_VERSION_NUM X then fatal ServerVersionMismatch
       else
         bind (confirm_block_size X ''block_size'' (int (BLCKSZ X))) (\<lambda>_.
         bind (confirm_block_size X ''wal_block_size'' (int (XLOG_BLCKSZ X))) (\<lambda>_.
         if my_conn then ext_do (x_disconnect X) else ret ())))))))"

text \<open>
  Modelled from the spec: \<^verbatim>\<open>pgut_atexit_push\<close>, \<^verbatim>\<open>pgut_atexit_pop\<close> and the exit path of
  \<^verbatim>\<open>elog(ERROR, ...)\<close> (pgut, not among the sources). A fatal error raised while the
  handler is installed ``runs the cleanup handler before exiting''; a handler that has
  been removed does not run.
\<close>

definition on_fatal_exit :: "('w, unit) prog \<Rightarrow> ('w, 'a) prog \<Rightarrow> ('w, 'a) prog" where
  "on_fatal_exit handler m s =
     (case m s of
        (es, s1, Fatal e) \<Rightarrow>
          (case handler s1 of
             (es', s2, Return u) \<Rightarrow> (es @ [EvCleanup] @ es', s2, Fatal e)
           | (es', s2, Fatal e') \<Rightarrow> (es @ [EvCleanup] @ es', s2, Fatal (CleanupFailed e e'))
           | (es', s2, OutOfFuel) \<Rightarrow> (es @ [EvCleanup] @ es', s2, OutOfFuel))
      | (es, s1, Return a) \<Rightarrow> (es, s1, Return a)
      | (es, s1, OutOfFuel) \<Rightarrow> (es, s1, OutOfFuel))"

text \<open>Lines 252 to 313: up to the list of the backups taken so far, which is the result.\<close>

definition do_backup_init :: "'w extern \<Rightarrow> bool \<Rightarrow> ('w, pgBackup list) prog" where
  "do_backup_init X check =
     bind get_state (\<lambda>s.
     if backup_mode (current s) = BACKUP_MODE_INVALID then fatal BackupModeMissing
     else
       bind (check_server_version X) (\<lambda>_.
       bind (modify (\<lambda>s. s\<lparr>in_backup := True\<rparr>)) (\<lambda>_.
       bind (ext_try (x_catalog_lock X)) (\<lambda>rc.
       if rc = - 1 then fatal CatalogLockError
       else if rc = 1 then fatal AnotherRunning
       else
         bind (set_status BACKUP_STATUS_RUNNING) (\<lambda>_.
         bind (ext_call (x_time X)) (\<lambda>now.
         bind (modify (\<lambda>s. s\<lparr>current := (current s)
                 \<lparr>tli := 0, start_lsn := 0, stop_lsn := 0, start_time := now, end_time := 0,
                  data_bytes := BYTES_INVALID, block_size := BLCKSZ X,
                  wal_block_size := XLOG_BLCKSZ X, recovery_xid := 0,
                  recovery_time := 0\<rparr>\<rparr>)) (\<lambda>_.
         bind (if \<not> check then
                 bind get_state (\<lambda>s.
                 bind (ext_try (x_pgBackupCreateDir X (current s))) (\<lambda>rc.
                 if rc \<noteq> 0 then fatal CreateDirError else pgBackupWriteIni X))
               else ret ()) (\<lambda>_.
         bind (ext_try (x_catalog_get_backup_list X)) (\<lambda>backup_list.
         case backup_list of
           None \<Rightarrow> fatal NoBackupList
         | Some l \<Rightarrow> ret l)))))))))"

text \<open>Lines 322 to 359: after the data is backed up.\<close>

definition do_backup_finish :: "'w extern \<Rightarrow> bool \<Rightarrow> int \<Rightarrow> int \<Rightarrow> ('w, int) prog" where
  "do_backup_finish X check keep_data_generations keep_data_days =
     bind (ext_call (x_time X)) (\<lambda>now.
     bind (modify (\<lambda>s. s\<lparr>current := (current s)\<lparr>end_time := now\<rparr>\<rparr>)) (\<lambda>_.
     bind (set_status BACKUP_STATUS_DONE) (\<lambda>_.
     bind (if \<not> check then pgBackupWriteIni X else ret ()) (\<lambda>_.
     bind (ext_try (x_pgBackupDelete X keep_data_generations keep_data_days)) (\<lambda>_.
     bind (ext_do (x_catalog_unlock X)) (\<lambda>_.
     ret 0))))))"

definition do_backup ::
  "nat \<Rightarrow> 'w extern \<Rightarrow> string option \<Rightarrow> string \<Rightarrow> bool \<Rightarrow> int \<Rightarrow> int \<Rightarrow> bool \<Rightarrow> ('w, int) prog" where
  "do_backup fuel X pgdata arclog_path check keep_data_generations keep_data_days
     smooth_checkpoint =
     (case pgdata of
        None \<Rightarrow> fatal PgdataMissing
      | Some root \<Rightarrow>
          bind (do_backup_init X check) (\<lambda>backup_list.
          bind (emit EvAtexitPush) (\<lambda>_.
          bind (on_fatal_exit (backup_cleanup X root)
                  (do_backup_database fuel X root arclog_path check backup_list
                     smooth_checkpoint)) (\<lambda>files_database.
          bind (emit EvAtexitPop) (\<lambda>_.
          do_backup_finish X check keep_data_generations keep_data_days)))))"

section \<open>Notions for the statements\<close>

text \<open>
  One turn of the polling loop of \<^verbatim>\<open>wait_for_archive\<close>, seen from the world \<open>w\<close> at its
  head: whether the poll finds the marker, whether the interrupt flag is seen set after the
  sleep, and the world at the head of the next turn.
\<close>

definition poll_present :: "'w extern \<Rightarrow> string \<Rightarrow> 'w \<Rightarrow> bool" where
  "poll_present X p w = fileExists_test (fst (x_stat X p w))"

definition poll_interrupted :: "'w extern \<Rightarrow> string \<Rightarrow> 'w \<Rightarrow> bool" where
  "poll_interrupted X p w = fst (x_interrupted X (x_sleep X 1 (snd (x_stat X p w))))"

definition poll_next :: "'w extern \<Rightarrow> string \<Rightarrow> 'w \<Rightarrow> 'w" where
  "poll_next X p w = snd (x_interrupted X (x_sleep X 1 (snd (x_stat X p w))))"

text \<open>The world at the head of turn \<open>k\<close>, counted from 0, when the loop starts in \<open>w\<close>.\<close>

definition poll_world :: "'w extern \<Rightarrow> string \<Rightarrow> 'w \<Rightarrow> nat \<Rightarrow> 'w" where
  "poll_world X p w k = (poll_next X p ^^ k) w"

text \<open>The events of \<open>n\<close> turns that find the marker and sleep.\<close>

definition waiting_turns :: "string \<Rightarrow> nat \<Rightarrow> event list" where
  "waiting_turns p n = concat (replicate n [EvArchivePoll p True, EvSleep 1])"

text \<open>
  The wait for the next second, seen from the clock value \<open>tv\<close> just read and the world
  \<open>w\<close>: the sleep and the next reading of the clock.
\<close>

definition next_reading :: "'w extern \<Rightarrow> (time_t \<times> int) \<times> 'w \<Rightarrow> (time_t \<times> int) \<times> 'w" where
  "next_reading X r = x_gettimeofday X (x_usleep X (1000000 - snd (fst r)) (snd r))"

definition reading :: "'w extern \<Rightarrow> (time_t \<times> int) \<times> 'w \<Rightarrow> nat \<Rightarrow> (time_t \<times> int) \<times> 'w" where
  "reading X r k = (next_reading X ^^ k) r"

definition sleeps :: "'w extern \<Rightarrow> (time_t \<times> int) \<times> 'w \<Rightarrow> nat \<Rightarrow> event list" where
  "sleeps X r n = map (\<lambda>k. EvUsleep (1000000 - snd (fst (reading X r k)))) [0..<n]"

text \<open>The events that hand a file to a copier.\<close>

fun is_copy :: "event \<Rightarrow> bool" where
  "is_copy (EvCopyFile p sec) = True"
| "is_copy (EvBackupDataFile p lsn sec) = True"
| "is_copy e = False"

fun copy_clock :: "event \<Rightarrow> time_t" where
  "copy_clock (EvCopyFile p sec) = sec"
| "copy_clock (EvBackupDataFile p lsn sec) = sec"
| "copy_clock e = 0"

text \<open>The events that the ordering of a backup is about.\<close>

fun is_start :: "event \<Rightarrow> bool" where
  "is_start (EvExecute sql params) = (sql = ''SELECT pg_start_backup($1, $2)'')"
| "is_start e = False"

fun is_switch :: "event \<Rightarrow> bool" where
  "is_switch (EvExecute sql params) = (sql = ''SELECT * FROM pg_switch_xlog()'')"
| "is_switch e = False"

fun is_stop :: "event \<Rightarrow> bool" where
  "is_stop (EvExecute sql params) = (sql = ''SELECT * FROM pg_stop_backup()'')"
| "is_stop e = False"

fun is_marker_gone :: "event \<Rightarrow> bool" where
  "is_marker_gone (EvArchivePoll p present) = (\<not> present)"
| "is_marker_gone e = False"

fun is_scan :: "event \<Rightarrow> bool" where
  "is_scan (EvScan root exclude omit_symlink add_root) = True"
| "is_scan e = False"

text \<open>The scan of \<^verbatim>\<open>add_files\<close> is the one that passes the exclude list.\<close>

fun is_file_scan :: "event \<Rightarrow> bool" where
  "is_file_scan (EvScan root exclude omit_symlink add_root) = exclude"
| "is_file_scan e = False"

fun is_extract :: "event \<Rightarrow> bool" where
  "is_extract (EvExtractPageMap startpoint t endpoint) = True"
| "is_extract e = False"

fun is_copy_done :: "event \<Rightarrow> bool" where
  "is_copy_done EvCopyDone = True"
| "is_copy_done e = False"

fun is_manifest :: "event \<Rightarrow> bool" where
  "is_manifest (EvWriteFileList p) = True"
| "is_manifest e = False"

text \<open>
  \<open>ordered_before [A\<^sub>1, \<dots>, A\<^sub>n] B es\<close>: every event of \<open>es\<close> that satisfies \<open>B\<close> comes
  after events satisfying \<open>A\<^sub>1\<close>, \dots, \<open>A\<^sub>n\<close>, in this order. The list is read from the
  front; an \<open>A\<close> that is met is struck off, and no \<open>B\<close> may come while one is left.
  \<open>pending\<close> is what is left of the \<open>A\<close>s after a list of events.
\<close>

fun ordered_before :: "(event \<Rightarrow> bool) list \<Rightarrow> (event \<Rightarrow> bool) \<Rightarrow> event list \<Rightarrow> bool" where
  "ordered_before [] B es = True"
| "ordered_before (A # As) B [] = True"
| "ordered_before (A # As) B (e # es) =
     (\<not> B e \<and> (if A e then ordered_before As B es else ordered_before (A # As) B es))"

fun pending :: "(event \<Rightarrow> bool) list \<Rightarrow> event list \<Rightarrow> (event \<Rightarrow> bool) list" where
  "pending [] es = []"
| "pending (A # As) [] = A # As"
| "pending (A # As) (e # es) = (if A e then pending As es else pending (A # As) es)"

text \<open>\<open>none_after A B es\<close>: from the first event that satisfies \<open>A\<close> on, none satisfies \<open>B\<close>.\<close>

definition none_after :: "(event \<Rightarrow> bool) \<Rightarrow> (event \<Rightarrow> bool) \<Rightarrow> event list \<Rightarrow> bool" where
  "none_after A B es = (\<forall>e\<in>set (dropWhile (\<lambda>e. \<not> A e) es). \<not> B e)"

text \<open>
  \<open>emits K m\<close>: whatever the state, every event of \<open>m\<close> satisfies \<open>K\<close>.
  \<open>keeps g m\<close>: whatever the state and the outcome, \<open>m\<close> leaves the part \<open>g\<close> of the state
  as it was.
\<close>

definition emits :: "(event \<Rightarrow> bool) \<Rightarrow> ('w, 'a) prog \<Rightarrow> bool" where
  "emits K m = (\<forall>s. \<forall>e\<in>set (events_of (m s)). K e)"

definition keeps :: "('w pstate \<Rightarrow> 'b) \<Rightarrow> ('w, 'a) prog \<Rightarrow> bool" where
  "keeps g m = (\<forall>s. g (state_of (m s)) = g s)"

text \<open>
  \<open>untouched g\<close>: the part \<open>g\<close> of the state does not depend on the outside world, on the
  list of files, or on any field of \<^verbatim>\<open>current\<close> other than the mode, the status and the end
  time.
\<close>

definition untouched :: "('w pstate \<Rightarrow> 'b) \<Rightarrow> bool" where
  "untouched g =
     ((\<forall>s w. g (s\<lparr>world := w\<rparr>) = g s) \<and>
      (\<forall>s l. g (s\<lparr>backup_files_list := l\<rparr>) = g s) \<and>
      (\<forall>s c. backup_mode c = backup_mode (current s) \<and> status c = status (current s) \<and>
             end_time c = end_time (current s) \<longrightarrow> g (s\<lparr>current := c\<rparr>) = g s))"

text \<open>The events of \<^verbatim>\<open>wait_for_archive\<close> called with the statement \<open>sql\<close>.\<close>

definition server_event :: "string \<Rightarrow> event \<Rightarrow> bool" where
  "server_event sql e =
     (e = EvExecute ''SET client_min_messages = warning;'' [] \<or>
      e = EvExecute sql [] \<or>
      e = EvExecute TXID_CURRENT_SQL [] \<or>
      (\<exists>p present. e = EvArchivePoll p present) \<or>
      e = EvSleep 1)"

text \<open>The events of the loop of \<^verbatim>\<open>backup_files\<close>.\<close>

definition copy_event :: "event \<Rightarrow> bool" where
  "copy_event e = (is_copy e \<or> (\<exists>n. e = EvUsleep n) \<or> (\<exists>p. e = EvMkdir p))"

section \<open>A small environment\<close>

text \<open>
  A concrete outside world, for running the model: a clock in seconds, the files
  \<^verbatim>\<open>recovery.conf\<close> and \<^verbatim>\<open>backup_label\<close>, whether the server writes the label at
  \<^verbatim>\<open>pg_start_backup\<close>, the number of polls that still find the \<^verbatim>\<open>.ready\<close> marker, the
  interrupt flag, and the catalog. The data directory \<^verbatim>\<open>/data\<close> holds the directory
  \<^verbatim>\<open>base\<close>, the relation file \<^verbatim>\<open>base/100\<close> and the file \<^verbatim>\<open>PG_VERSION\<close>.
\<close>

record demo_world =
  clock :: int
  recovery_conf :: bool
  backup_label :: bool
  server_writes_label :: bool
  ready_polls :: nat
  interrupt :: bool
  catalog :: "pgBackup list option"

definition demo_file :: "string \<Rightarrow> mode_t \<Rightarrow> time_t \<Rightarrow> pgFile" where
  "demo_file p m t =
     \<lparr>path = p, mode = m, mtime = t, file_size = 8192, read_size = 0, write_size = 0,
      is_datafile = False, pagemap = {}\<rparr>"

definition demo_stat :: "string \<Rightarrow> demo_world \<Rightarrow> stat_outcome \<times> demo_world" where
  "demo_stat p w =
     (if p = ''/data/recovery.conf'' then
        (if recovery_conf w then StatOk \<lparr>st_mode = 0x8180\<rparr>
         else StatFail ENOENT \<lparr>st_mode = 0\<rparr>, w)
      else if p = ''/data/backup_label'' then
        (if backup_label w then StatOk \<lparr>st_mode = 0x8180\<rparr>
         else StatFail ENOENT \<lparr>st_mode = 0\<rparr>, w)
      else if p = ''/data/pg_xlog/archive_status/000000010000000000000001.ready'' then
        (if 0 < ready_polls w then StatOk \<lparr>st_mode = 0x8180\<rparr>
         else StatFail ENOENT \<lparr>st_mode = 0\<rparr>, w\<lparr>ready_polls := ready_polls w - 1\<rparr>)
      else if p = ''/data/base'' then (StatOk \<lparr>st_mode = 0x41C0\<rparr>, w)
      else if p = ''/data/base/100'' \<or> p = ''/data/PG_VERSION'' then
        (StatOk \<lparr>st_mode = 0x8180\<rparr>, w)
      else (StatFail ENOENT \<lparr>st_mode = 0\<rparr>, w))"

definition demo_execute ::
  "string \<Rightarrow> string list \<Rightarrow> demo_world \<Rightarrow> (string + PGresult option) \<times> demo_world" where
  "demo_execute sql params w =
     (Inr (Some \<lparr>PQntuples = 1, PQnfields = 1, PQgetvalue00 = ''8192''\<rparr>),
      if sql = ''SELECT pg_start_backup($1, $2)'' then w\<lparr>backup_label := server_writes_label w\<rparr>
      else if sql = ''SELECT * FROM pg_stop_backup()'' then w\<lparr>backup_label := False\<rparr>
      else w)"

definition demo_env :: "demo_world extern" where
  "demo_env =
     \<lparr>x_stat = demo_stat,
      x_time = (\<lambda>w. (clock w, w)),
      x_gettimeofday = (\<lambda>w. ((clock w, 0), w)),
      x_sleep = (\<lambda>n w. w\<lparr>clock := clock w + int n\<rparr>),
      x_usleep = (\<lambda>n w. w\<lparr>clock := clock w + 1\<rparr>),
      x_fopen = (\<lambda>p m w. (True, w)),
      x_fclose = (\<lambda>w. w),
      x_chmod = (\<lambda>p w. (0, w)),
      x_strtol = (\<lambda>str. (8192, False)),
      x_sscanf_u = (\<lambda>str. Some 7),
      x_interrupted = (\<lambda>w. (interrupt w, w)),
      x_connection_is_null = (\<lambda>w. (True, w)),
      x_reconnect = (\<lambda>w. (Inr (), w)),
      x_disconnect = (\<lambda>w. w),
      x_execute = demo_execute,
      x_PQserverVersion = (\<lambda>w. (100000, w)),
      RELSEG_SIZE = 131072,
      BLCKSZ = 8192,
      XLOG_BLCKSZ = 8192,
      PG_VERSION_NUM = 100000,
      x_relpathperm = (\<lambda>rnode forknum. ''base/100''),
      x_XLogDataFromLSN = (\<lambda>str. (0, 0x1000000)),
      x_XLogFileName = (\<lambda>t lsn. ''000000010000000000000001''),
      x_join_path_components = (\<lambda>a b. a @ ''/'' @ b),
      x_JoinPathEnd = (\<lambda>str pre. drop (length pre + 1) str),
      x_path_is_prefix_of_path = (\<lambda>a b. take (length a) b = a),
      x_last_dir_separator = (\<lambda>str. if str = ''base/100'' then Some ''/100'' else None),
      x_sanityChecks = (\<lambda>w. (Inr (), w)),
      x_get_current_timeline = (\<lambda>w. (Inr 1, w)),
      x_time2iso = (\<lambda>t. ''2016-01-01 00:00:00''),
      x_pgBackupGetPath = (\<lambda>b sub. case sub of None \<Rightarrow> ''/backup/1'' | Some d \<Rightarrow> ''/backup/1/'' @ d),
      x_pgBackupWriteIni = (\<lambda>b w. (Inr (), w)),
      x_pgBackupCreateDir = (\<lambda>b w. (Inr 0, w)),
      x_pgBackupDelete = (\<lambda>g d w. (Inr (), w)),
      x_catalog_lock = (\<lambda>w. (Inr 0, w)),
      x_catalog_unlock = (\<lambda>w. w),
      x_catalog_get_backup_list = (\<lambda>w. (Inr (catalog w), w)),
      x_dir_list_file = (\<lambda>root exclude omit_symlink add_root w.
        (Inr (if exclude then
                [demo_file ''/data/base'' 0x41C0 100,
                 demo_file ''/data/base/100'' 0x8180 100,
                 demo_file ''/data/PG_VERSION'' 0x8180 50]
              else [demo_file ''/data/base'' 0x41C0 100]), w)),
      x_dir_print_mkdirs_sh = (\<lambda>files root w. (Inr (), w)),
      x_dir_read_file_list = (\<lambda>root p w.
        (Inr [demo_file ''/data/PG_VERSION'' 0x8180 50,
              demo_file ''/data/base/100'' 0x8180 90], w)),
      x_dir_print_file_list = (\<lambda>files root w. (Inr (), w)),
      x_dir_create_dir = (\<lambda>p w. (Inr (), w)),
      x_copy_file = (\<lambda>from_root to_root file w.
        (Inr (True, file\<lparr>read_size := file_size file, write_size := file_size file\<rparr>), w)),
      x_backup_data_file = (\<lambda>from_root to_root file lsn w.
        (Inr (True, file\<lparr>read_size := file_size file, write_size := file_size file\<rparr>), w)),
      x_extractPageMap = (\<lambda>arclog startpoint t endpoint w.
        (([(MAIN_FORKNUM, \<lparr>spcNode = 1663, dbNode = 1, relNode = 100\<rparr>, 5)], None), w))\<rparr>"

definition demo_backup :: "BackupMode \<Rightarrow> BackupStatus \<Rightarrow> pgBackup" where
  "demo_backup m st =
     \<lparr>backup_mode = m, status = st, tli = 1, start_lsn = 0x500000, stop_lsn = 0x600000,
      start_time = 10, end_time = 20, recovery_xid = 3, recovery_time = 20, data_bytes = 0,
      block_size = 8192, wal_block_size = 8192\<rparr>"

definition demo_world0 :: demo_world where
  "demo_world0 =
     \<lparr>clock = 200, recovery_conf = False, backup_label = False, server_writes_label = True,
      ready_polls = 2, interrupt = False,
      catalog = Some [demo_backup BACKUP_MODE_FULL BACKUP_STATUS_DONE]\<rparr>"

definition demo_state :: "BackupMode \<Rightarrow> demo_world \<Rightarrow> demo_world pstate" where
  "demo_state m w =
     \<lparr>world = w, current = demo_backup m BACKUP_STATUS_INVALID, backup_files_list = [],
      in_backup = False, server_version = 0\<rparr>"

text \<open>
  A run of \<^verbatim>\<open>do_backup_database\<close> in this environment, in the mode \<open>m\<close> and from the world
  \<open>w\<close>: the data directory is \<^verbatim>\<open>/data\<close>, the catalog holds one full backup that is done.
\<close>

definition demo_run :: "BackupMode \<Rightarrow> demo_world \<Rightarrow> (demo_world, pgFile list) out" where
  "demo_run m w =
     do_backup_database 20 demo_env ''/data'' ''/arclog'' False
       [demo_backup BACKUP_MODE_FULL BACKUP_STATUS_DONE] False (demo_state m w)"


section \<open>Properties\<close>

subsection \<open>Sequencing\<close>

lemma bind_Return_iff:
  "bind m f s = (es, s', Return b) \<longleftrightarrow>
     (\<exists>es1 s1 a es2. m s = (es1, s1, Return a) \<and> f a s1 = (es2, s', Return b) \<and> es = es1 @ es2)"
  by (cases "m s" rule: prod_cases3, rename_tac es1 s1 r, case_tac r;
      auto simp: bind_def split: prod.splits)

lemma ret_eq: "ret a s = (es, s', r) \<longleftrightarrow> es = [] \<and> s' = s \<and> r = Return a"
  by (auto simp: ret_def)


subsection \<open>\<^verbatim>\<open>fileExists\<close>\<close>

lemma bind_ext_call_ret:
  "bind (ext_call f) (\<lambda>r. ret (g r)) s =
     ([], s\<lparr>world := snd (f (world s))\<rparr>, Return (g (fst (f (world s)))))"
  by (simp add: bind_def ext_call_def ret_def split: prod.splits)

lemma fileExists_eq:
  "fileExists X p s =
     ([], s\<lparr>world := snd (x_stat X p (world s))\<rparr>,
      Return (fileExists_test (fst (x_stat X p (world s)))))"
  by (simp add: fileExists_def bind_ext_call_ret)

text \<open>
  C9, as stated, fails: when \<^verbatim>\<open>stat\<close> fails with \<^verbatim>\<open>EACCES\<close> and the buffer it did not
  fill holds a mode that is not that of a regular file, \<^verbatim>\<open>fileExists\<close> answers false.
\<close>

theorem fileExists_stat_error_counterexample:
  "fst (x_stat (demo_env\<lparr>x_stat := \<lambda>p w. (StatFail EACCES \<lparr>st_mode = 0\<rparr>, w)\<rparr>)
          ''/data/backup_label'' (world (demo_state BACKUP_MODE_FULL demo_world0)))
     = StatFail EACCES \<lparr>st_mode = 0\<rparr> \<and>
   EACCES \<noteq> ENOENT \<and>
   result_of (fileExists (demo_env\<lparr>x_stat := \<lambda>p w. (StatFail EACCES \<lparr>st_mode = 0\<rparr>, w)\<rparr>)
                ''/data/backup_label'' (demo_state BACKUP_MODE_FULL demo_world0))
     = Return False"
  by (simp add: fileExists_eq result_of_def fileExists_test_def demo_env_def EACCES_def
      ENOENT_def S_ISREG_def S_IFMT_def S_IFREG_def)

text \<open>
  C9, amended: \<^verbatim>\<open>fileExists\<close> answers false when \<^verbatim>\<open>stat\<close> fails with \<^verbatim>\<open>ENOENT\<close>; when
  \<^verbatim>\<open>stat\<close> succeeds, it answers true exactly when the path is a regular file.
\<close>

theorem fileExists_stat:
  "(fst (x_stat X p (world s)) = StatFail ENOENT buf \<longrightarrow>
      result_of (fileExists X p s) = Return False) \<and>
   (fst (x_stat X p (world s)) = StatOk buf \<longrightarrow>
      result_of (fileExists X p s) = Return (S_ISREG (st_mode buf)))"
  by (simp add: fileExists_eq result_of_def fileExists_test_def)

theorem fileExists_stat_witness:
  "fst (x_stat demo_env ''/data/recovery.conf'' (world (demo_state BACKUP_MODE_FULL demo_world0)))
     = StatFail ENOENT \<lparr>st_mode = 0\<rparr> \<and>
   result_of (fileExists demo_env ''/data/recovery.conf''
                (demo_state BACKUP_MODE_FULL demo_world0)) = Return False \<and>
   fst (x_stat demo_env ''/data/base/100'' (world (demo_state BACKUP_MODE_FULL demo_world0)))
     = StatOk \<lparr>st_mode = 0x8180\<rparr> \<and>
   result_of (fileExists demo_env ''/data/base/100''
                (demo_state BACKUP_MODE_FULL demo_world0)) = Return True"
proof -
  let ?s = "demo_state BACKUP_MODE_FULL demo_world0"
  have a: "fst (x_stat demo_env ''/data/recovery.conf'' (world ?s))
             = StatFail ENOENT \<lparr>st_mode = 0\<rparr>"
    by (simp add: demo_env_def demo_stat_def demo_state_def demo_world0_def)
  have b: "fst (x_stat demo_env ''/data/base/100'' (world ?s)) = StatOk \<lparr>st_mode = 0x8180\<rparr>"
    by (simp add: demo_env_def demo_stat_def demo_state_def demo_world0_def)
  have c: "S_ISREG (st_mode \<lparr>st_mode = 0x8180\<rparr>)"
    by (simp add: S_ISREG_def S_IFMT_def S_IFREG_def)
  from fileExists_stat [of demo_env "''/data/recovery.conf''" ?s "\<lparr>st_mode = 0\<rparr>"] a
  have d: "result_of (fileExists demo_env ''/data/recovery.conf'' ?s) = Return False"
    by blast
  from fileExists_stat [of demo_env "''/data/base/100''" ?s "\<lparr>st_mode = 0x8180\<rparr>"] b c
  have e: "result_of (fileExists demo_env ''/data/base/100'' ?s) = Return True"
    by simp
  from a b d e show ?thesis by blast
qed

subsection \<open>\<^verbatim>\<open>process_block_change\<close>\<close>

lemma strcmp_eq_0: "strcmp a b = 0 \<longleftrightarrow> a = b"
  by (simp add: strcmp_def)

lemma find_file_item_None: "find_file_item t fs = None \<longleftrightarrow> (\<forall>f\<in>set fs. path f \<noteq> t)"
  by (induction fs) (auto simp: strcmp_eq_0)

lemma find_file_item_Some:
  "find_file_item t fs = Some j \<Longrightarrow>
     j < length fs \<and> path (fs ! j) = t \<and> (\<forall>i<j. path (fs ! i) \<noteq> t)"
proof (induction fs arbitrary: j)
  case Nil
  then show ?case by simp
next
  case (Cons f fs)
  show ?case
  proof (cases "path f = t")
    case True
    with Cons.prems show ?thesis by (simp add: strcmp_eq_0)
  next
    case False
    with Cons.prems obtain k where k: "find_file_item t fs = Some k" "j = Suc k"
      by (auto simp: strcmp_eq_0)
    from Cons.IH [OF k(1)] False k(2) show ?thesis
      by (auto simp: nth_Cons less_Suc_eq_0_disj split: nat.splits)
  qed
qed

lemma word_div_mod_nat:
  fixes b r :: "32 word"
  shows "unat (b div r) = unat b div unat r" "b mod r = of_nat (unat b mod unat r)"
  by (simp_all add: unat_div flip: unat_mod)

text \<open>
  C1: for \<^verbatim>\<open>process_block_change(forknum, rnode, blkno)\<close> the segment number is
  \<open>blkno div RELSEG_SIZE\<close> and the block number in the segment is \<open>blkno mod RELSEG_SIZE\<close>.
  The entry looked up is the one whose path is the data directory, a slash, and the path
  of the relation, with the suffix of a dot and the segment number exactly when that number
  is positive. If no entry of the list has this path, the list is unchanged. Otherwise
  the block number in the segment is added to the page map of the first such entry, and
  nothing else changes.
\<close>

theorem process_block_change_lookup:
  assumes "RELSEG_SIZE X \<noteq> 0"
  shows "let segno = unat blkno div unat (RELSEG_SIZE X);
             blkno_inseg = (of_nat (unat blkno mod unat (RELSEG_SIZE X)) :: BlockNumber);
             target = pgdata @ ''/'' @ x_relpathperm X rnode forknum @
                        (if 0 < segno then ''.'' @ fmt_u segno else [])
         in ((\<forall>f \<in> set files. path f \<noteq> target) \<longrightarrow>
               process_block_change X pgdata forknum rnode blkno files = files) \<and>
            ((\<exists>f \<in> set files. path f = target) \<longrightarrow>
               (\<exists>j < length files.
                  path (files ! j) = target \<and> (\<forall>i < j. path (files ! i) \<noteq> target) \<and>
                  process_block_change X pgdata forknum rnode blkno files =
                    files[j := (files ! j)\<lparr>pagemap := insert blkno_inseg (pagemap (files ! j))\<rparr>]))"
proof -
  define segno where "segno = unat blkno div unat (RELSEG_SIZE X)"
  define target where "target = pgdata @ ''/'' @ x_relpathperm X rnode forknum @
                        (if 0 < segno then ''.'' @ fmt_u segno else [])"
  have seg: "unat (blkno div RELSEG_SIZE X) = segno"
    by (simp add: segno_def word_div_mod_nat)
  have pos: "(0 < blkno div RELSEG_SIZE X) = (0 < segno)"
    using seg by (simp add: word_less_nat_alt)
  have tgt: "pgdata @ ''/'' @ datasegpath X rnode forknum (blkno div RELSEG_SIZE X) = target"
    by (simp add: datasegpath_def target_def pos seg)
  have none: "process_block_change X pgdata forknum rnode blkno files = files"
    if "\<forall>f \<in> set files. path f \<noteq> target"
    using that find_file_item_None [of target files] tgt
    by (simp add: process_block_change_def Let_def)
  have some: "\<exists>j < length files.
                path (files ! j) = target \<and> (\<forall>i < j. path (files ! i) \<noteq> target) \<and>
                process_block_change X pgdata forknum rnode blkno files =
                  files[j := (files ! j)\<lparr>pagemap :=
                    insert (of_nat (unat blkno mod unat (RELSEG_SIZE X))) (pagemap (files ! j))\<rparr>]"
    if "\<exists>f \<in> set files. path f = target"
  proof -
    from that find_file_item_None [of target files]
    obtain j where j: "find_file_item target files = Some j" by auto
    from find_file_item_Some [OF j] j tgt show ?thesis
      by (auto simp: process_block_change_def Let_def datapagemap_add_def word_div_mod_nat(2))
  qed
  show ?thesis
    unfolding Let_def using none some unfolding target_def segno_def by blast
qed

theorem process_block_change_lookup_witness:
  "RELSEG_SIZE demo_env \<noteq> 0 \<and>
   (\<exists>f \<in> set [demo_file ''/data/base/100.1'' 0x8180 100, demo_file ''/data/base/100'' 0x8180 100].
      path f = ''/data/base/100'') \<and>
   process_block_change demo_env ''/data'' MAIN_FORKNUM \<lparr>spcNode = 1663, dbNode = 1, relNode = 100\<rparr> 5
     [demo_file ''/data/base/100.1'' 0x8180 100, demo_file ''/data/base/100'' 0x8180 100] =
     [demo_file ''/data/base/100.1'' 0x8180 100,
      (demo_file ''/data/base/100'' 0x8180 100)\<lparr>pagemap := {5}\<rparr>] \<and>
   \<not> (\<exists>f \<in> set [demo_file ''/data/base/100'' 0x8180 100]. path f = ''/data/base/100.1'') \<and>
   process_block_change demo_env ''/data'' MAIN_FORKNUM \<lparr>spcNode = 1663, dbNode = 1, relNode = 100\<rparr> 131075
     [demo_file ''/data/base/100'' 0x8180 100] = [demo_file ''/data/base/100'' 0x8180 100]"
proof -
  let ?rn = "\<lparr>spcNode = 1663, dbNode = 1, relNode = 100\<rparr>"
  let ?f0 = "demo_file ''/data/base/100'' 0x8180 100"
  let ?f1 = "demo_file ''/data/base/100.1'' 0x8180 100"
  have h: "RELSEG_SIZE demo_env \<noteq> 0" by (simp add: demo_env_def)
  have rp: "x_relpathperm demo_env ?rn MAIN_FORKNUM = ''base/100''" by (simp add: demo_env_def)
  have rs: "unat (RELSEG_SIZE demo_env) = 131072" by (simp add: demo_env_def)
  have p0: "path ?f0 = ''/data/base/100''" and p1: "path ?f1 = ''/data/base/100.1''"
    by (simp_all add: demo_file_def)
  have fmt: "fmt_u 1 = ''1''" by code_simp
  have a: "process_block_change demo_env ''/data'' MAIN_FORKNUM ?rn 5 [?f1, ?f0] =
             [?f1, ?f0\<lparr>pagemap := {5}\<rparr>]"
    by (simp add: process_block_change_def Let_def datasegpath_def demo_env_def demo_file_def
        strcmp_def datapagemap_add_def)
  from process_block_change_lookup [OF h, of 131075 "''/data''" ?rn MAIN_FORKNUM "[?f0]"]
  have b: "process_block_change demo_env ''/data'' MAIN_FORKNUM ?rn 131075 [?f0] = [?f0]"
    by (simp add: Let_def rp rs p0 fmt)
  from process_block_change_lookup [OF h, of 5 "''/data''" ?rn MAIN_FORKNUM "[?f1, ?f0]"] h a b
  show ?thesis by (simp add: p0 p1)
qed

subsection \<open>\<^verbatim>\<open>wait_for_archive\<close>\<close>

lemma poll_world_Suc: "poll_world X p w (Suc k) = poll_world X p (poll_next X p w) k"
  by (simp add: poll_world_def funpow_swap1)

lemma poll_world_0: "poll_world X p w 0 = w"
  by (simp add: poll_world_def)

lemma waiting_turns_Suc:
  "waiting_turns p (Suc n) = EvArchivePoll p True # EvSleep 1 # waiting_turns p n"
  by (simp add: waiting_turns_def)

lemma wait_archive_loop_absent:
  "\<not> poll_present X p (world s) \<Longrightarrow>
   wait_archive_loop X p c s =
     ([EvArchivePoll p False], s\<lparr>world := snd (x_stat X p (world s))\<rparr>, Return c)"
  by (subst wait_archive_loop.simps) (simp add: fileExists_eq poll_present_def)

lemma wait_archive_loop_interrupted:
  "poll_present X p (world s) \<Longrightarrow> poll_interrupted X p (world s) \<Longrightarrow>
   wait_archive_loop X p c s =
     ([EvArchivePoll p True, EvSleep 1], s\<lparr>world := poll_next X p (world s)\<rparr>,
      Fatal ArchiveInterrupted)"
  by (subst wait_archive_loop.simps,
      cases "x_interrupted X (x_sleep X 1 (snd (x_stat X p (world s))))")
    (simp add: fileExists_eq poll_present_def poll_interrupted_def poll_next_def)

lemma wait_archive_loop_timeout:
  "poll_present X p (world s) \<Longrightarrow> \<not> poll_interrupted X p (world s) \<Longrightarrow>
   TIMEOUT_ARCHIVE < c + 1 \<Longrightarrow>
   wait_archive_loop X p c s =
     ([EvArchivePoll p True, EvSleep 1], s\<lparr>world := poll_next X p (world s)\<rparr>,
      Fatal ArchiveTimeout)"
  by (subst wait_archive_loop.simps,
      cases "x_interrupted X (x_sleep X 1 (snd (x_stat X p (world s))))")
    (simp add: fileExists_eq poll_present_def poll_interrupted_def poll_next_def)

lemma wait_archive_loop_again:
  "poll_present X p (world s) \<Longrightarrow> \<not> poll_interrupted X p (world s) \<Longrightarrow>
   c + 1 \<le> TIMEOUT_ARCHIVE \<Longrightarrow>
   wait_archive_loop X p c s =
     (case wait_archive_loop X p (c + 1) (s\<lparr>world := poll_next X p (world s)\<rparr>) of
        (es, s', r) \<Rightarrow> (EvArchivePoll p True # EvSleep 1 # es, s', r))"
  by (subst wait_archive_loop.simps,
      cases "x_interrupted X (x_sleep X 1 (snd (x_stat X p (world s))))")
    (simp add: fileExists_eq poll_present_def poll_interrupted_def poll_next_def)

lemma wait_archive_loop_returns:
  "\<lbrakk>\<forall>k<n. poll_present X p (poll_world X p (world s) k) \<and>
           \<not> poll_interrupted X p (poll_world X p (world s) k);
    \<not> poll_present X p (poll_world X p (world s) n); c + n \<le> TIMEOUT_ARCHIVE\<rbrakk> \<Longrightarrow>
   wait_archive_loop X p c s =
     (waiting_turns p n @ [EvArchivePoll p False],
      s\<lparr>world := snd (x_stat X p (poll_world X p (world s) n))\<rparr>, Return (c + n))"
proof (induction n arbitrary: c s)
  case 0
  then show ?case
    by (simp add: wait_archive_loop_absent poll_world_0 waiting_turns_def)
next
  case (Suc n)
  from Suc.prems(1) have here: "poll_present X p (world s)" "\<not> poll_interrupted X p (world s)"
    using poll_world_0 [of X p "world s"] by (metis zero_less_Suc)+
  let ?s = "s\<lparr>world := poll_next X p (world s)\<rparr>"
  have "\<forall>k<n. poll_present X p (poll_world X p (world ?s) k) \<and>
           \<not> poll_interrupted X p (poll_world X p (world ?s) k)"
    using Suc.prems(1) by (auto simp: poll_world_Suc)
  moreover have "\<not> poll_present X p (poll_world X p (world ?s) n)"
    using Suc.prems(2) by (simp add: poll_world_Suc)
  moreover have "(c + 1) + n \<le> TIMEOUT_ARCHIVE" using Suc.prems(3) by simp
  ultimately have "wait_archive_loop X p (c + 1) ?s =
     (waiting_turns p n @ [EvArchivePoll p False],
      ?s\<lparr>world := snd (x_stat X p (poll_world X p (world ?s) n))\<rparr>, Return ((c + 1) + n))"
    by (rule Suc.IH)
  moreover have "c + 1 \<le> TIMEOUT_ARCHIVE" using Suc.prems(3) by simp
  ultimately show ?case
    using here by (simp add: wait_archive_loop_again waiting_turns_Suc poll_world_Suc)
qed

lemma wait_archive_loop_interrupt_at:
  "\<lbrakk>\<forall>k<n. poll_present X p (poll_world X p (world s) k) \<and>
           \<not> poll_interrupted X p (poll_world X p (world s) k);
    poll_present X p (poll_world X p (world s) n);
    poll_interrupted X p (poll_world X p (world s) n); c + n \<le> TIMEOUT_ARCHIVE\<rbrakk> \<Longrightarrow>
   wait_archive_loop X p c s =
     (waiting_turns p (Suc n),
      s\<lparr>world := poll_world X p (world s) (Suc n)\<rparr>, Fatal ArchiveInterrupted)"
proof (induction n arbitrary: c s)
  case 0
  then show ?case
    by (simp add: wait_archive_loop_interrupted poll_world_0 poll_world_Suc waiting_turns_def)
next
  case (Suc n)
  from Suc.prems(1) have here: "poll_present X p (world s)" "\<not> poll_interrupted X p (world s)"
    using poll_world_0 [of X p "world s"] by (metis zero_less_Suc)+
  let ?s = "s\<lparr>world := poll_next X p (world s)\<rparr>"
  have "\<forall>k<n. poll_present X p (poll_world X p (world ?s) k) \<and>
           \<not> poll_interrupted X p (poll_world X p (world ?s) k)"
    using Suc.prems(1) by (auto simp: poll_world_Suc)
  moreover have "poll_present X p (poll_world X p (world ?s) n)"
    "poll_interrupted X p (poll_world X p (world ?s) n)"
    using Suc.prems(2,3) by (simp_all add: poll_world_Suc)
  moreover have "(c + 1) + n \<le> TIMEOUT_ARCHIVE" using Suc.prems(4) by simp
  ultimately have "wait_archive_loop X p (c + 1) ?s =
     (waiting_turns p (Suc n),
      ?s\<lparr>world := poll_world X p (world ?s) (Suc n)\<rparr>, Fatal ArchiveInterrupted)"
    by (rule Suc.IH)
  moreover have "c + 1 \<le> TIMEOUT_ARCHIVE" using Suc.prems(4) by simp
  ultimately show ?case
    using here by (simp add: wait_archive_loop_again waiting_turns_Suc poll_world_Suc)
qed

lemma wait_archive_loop_times_out:
  "\<lbrakk>\<forall>k\<le>n. poll_present X p (poll_world X p (world s) k) \<and>
           \<not> poll_interrupted X p (poll_world X p (world s) k);
    c + n = TIMEOUT_ARCHIVE\<rbrakk> \<Longrightarrow>
   wait_archive_loop X p c s =
     (waiting_turns p (Suc n),
      s\<lparr>world := poll_world X p (world s) (Suc n)\<rparr>, Fatal ArchiveTimeout)"
proof (induction n arbitrary: c s)
  case 0
  then show ?case
    by (simp add: wait_archive_loop_timeout poll_world_0 poll_world_Suc waiting_turns_def)
next
  case (Suc n)
  from Suc.prems(1) have here: "poll_present X p (world s)" "\<not> poll_interrupted X p (world s)"
    using poll_world_0 [of X p "world s"] by (metis le0)+
  let ?s = "s\<lparr>world := poll_next X p (world s)\<rparr>"
  have "\<forall>k\<le>n. poll_present X p (poll_world X p (world ?s) k) \<and>
           \<not> poll_interrupted X p (poll_world X p (world ?s) k)"
    using Suc.prems(1) by (auto simp: poll_world_Suc)
  moreover have "(c + 1) + n = TIMEOUT_ARCHIVE" using Suc.prems(2) by simp
  ultimately have "wait_archive_loop X p (c + 1) ?s =
     (waiting_turns p (Suc n),
      ?s\<lparr>world := poll_world X p (world ?s) (Suc n)\<rparr>, Fatal ArchiveTimeout)"
    by (rule Suc.IH)
  moreover have "c + 1 \<le> TIMEOUT_ARCHIVE" using Suc.prems(2) by simp
  ultimately show ?case
    using here by (simp add: wait_archive_loop_again waiting_turns_Suc poll_world_Suc)
qed

lemma wait_for_archive_query_path:
  "wait_for_archive_query X pgdata backup sql s = (es0, s1, Return rp) \<Longrightarrow>
   \<exists>t lsn. rp = snprintf_path
              (pgdata @ ''/pg_xlog/archive_status/'' @ x_XLogFileName X t lsn @ ''.ready'')"
  unfolding wait_for_archive_query_def bind_Return_iff ret_eq by blast

lemma wait_for_archive_after_query:
  "wait_for_archive_query X pgdata backup sql s = (es0, s1, Return rp) \<Longrightarrow>
   wait_for_archive X pgdata backup sql s =
     (case wait_archive_loop X rp 0 s1 of
        (es, s2, Return n) \<Rightarrow> (es0 @ es, s2, Return ())
      | (es, s2, Fatal e) \<Rightarrow> (es0 @ es, s2, Fatal e)
      | (es, s2, OutOfFuel) \<Rightarrow> (es0 @ es, s2, OutOfFuel))"
  by (simp add: wait_for_archive_def bind_def ret_def split: prod.splits result.splits)

text \<open>
  C8: once the statement is sent and answered, \<^verbatim>\<open>wait_for_archive\<close> polls the marker
  \<^verbatim>\<open>pgdata/pg_xlog/archive_status/<segment>.ready\<close>, sleeping one second after each poll
  that finds it and reading the interrupt flag after each sleep. With a timeout of 10:
  if the poll number \<open>n \<le> 10\<close> (from 0) is the first that does not find the marker, and no
  interrupt was seen before, the function returns after \<open>n\<close> sleeps; if the flag is seen
  set after the sleep of turn \<open>n \<le> 10\<close>, the fatal error is the interrupt; if the polls 0
  to 10 all find the marker and no interrupt is seen, the fatal error is the timeout,
  raised after the eleventh sleep.
\<close>

theorem wait_for_archive_polls:
  assumes "wait_for_archive_query X pgdata backup sql s = (es0, s1, Return rp)"
  shows "TIMEOUT_ARCHIVE = 10 \<and>
    (\<exists>t lsn. rp = snprintf_path
       (pgdata @ ''/pg_xlog/archive_status/'' @ x_XLogFileName X t lsn @ ''.ready'')) \<and>
    (\<forall>n. n \<le> TIMEOUT_ARCHIVE \<and>
       (\<forall>k<n. poll_present X rp (poll_world X rp (world s1) k) \<and>
              \<not> poll_interrupted X rp (poll_world X rp (world s1) k)) \<and>
       \<not> poll_present X rp (poll_world X rp (world s1) n) \<longrightarrow>
       wait_for_archive X pgdata backup sql s =
         (es0 @ waiting_turns rp n @ [EvArchivePoll rp False],
          s1\<lparr>world := snd (x_stat X rp (poll_world X rp (world s1) n))\<rparr>, Return ())) \<and>
    (\<forall>n. n \<le> TIMEOUT_ARCHIVE \<and>
       (\<forall>k<n. poll_present X rp (poll_world X rp (world s1) k) \<and>
              \<not> poll_interrupted X rp (poll_world X rp (world s1) k)) \<and>
       poll_present X rp (poll_world X rp (world s1) n) \<and>
       poll_interrupted X rp (poll_world X rp (world s1) n) \<longrightarrow>
       events_of (wait_for_archive X pgdata backup sql s) = es0 @ waiting_turns rp (Suc n) \<and>
       result_of (wait_for_archive X pgdata backup sql s) = Fatal ArchiveInterrupted) \<and>
    ((\<forall>k\<le>TIMEOUT_ARCHIVE. poll_present X rp (poll_world X rp (world s1) k) \<and>
              \<not> poll_interrupted X rp (poll_world X rp (world s1) k)) \<longrightarrow>
       events_of (wait_for_archive X pgdata backup sql s) =
         es0 @ waiting_turns rp (Suc TIMEOUT_ARCHIVE) \<and>
       result_of (wait_for_archive X pgdata backup sql s) = Fatal ArchiveTimeout)"
proof (intro conjI allI impI)
  show "TIMEOUT_ARCHIVE = 10" by (simp add: TIMEOUT_ARCHIVE_def)
  show "\<exists>t lsn. rp = snprintf_path
       (pgdata @ ''/pg_xlog/archive_status/'' @ x_XLogFileName X t lsn @ ''.ready'')"
    using assms by (rule wait_for_archive_query_path)
next
  fix n
  assume h: "n \<le> TIMEOUT_ARCHIVE \<and>
       (\<forall>k<n. poll_present X rp (poll_world X rp (world s1) k) \<and>
              \<not> poll_interrupted X rp (poll_world X rp (world s1) k)) \<and>
       \<not> poll_present X rp (poll_world X rp (world s1) n)"
  then have "wait_archive_loop X rp 0 s1 =
     (waiting_turns rp n @ [EvArchivePoll rp False],
      s1\<lparr>world := snd (x_stat X rp (poll_world X rp (world s1) n))\<rparr>, Return (0 + n))"
    by (intro wait_archive_loop_returns) simp_all
  then show "wait_for_archive X pgdata backup sql s =
         (es0 @ waiting_turns rp n @ [EvArchivePoll rp False],
          s1\<lparr>world := snd (x_stat X rp (poll_world X rp (world s1) n))\<rparr>, Return ())"
    by (simp add: wait_for_archive_after_query [OF assms])
next
  fix n
  assume h: "n \<le> TIMEOUT_ARCHIVE \<and>
       (\<forall>k<n. poll_present X rp (poll_world X rp (world s1) k) \<and>
              \<not> poll_interrupted X rp (poll_world X rp (world s1) k)) \<and>
       poll_present X rp (poll_world X rp (world s1) n) \<and>
       poll_interrupted X rp (poll_world X rp (world s1) n)"
  then have l: "wait_archive_loop X rp 0 s1 =
     (waiting_turns rp (Suc n),
      s1\<lparr>world := poll_world X rp (world s1) (Suc n)\<rparr>, Fatal ArchiveInterrupted)"
    by (intro wait_archive_loop_interrupt_at) simp_all
  show "events_of (wait_for_archive X pgdata backup sql s) = es0 @ waiting_turns rp (Suc n)"
    by (simp add: wait_for_archive_after_query [OF assms] l events_of_def)
  show "result_of (wait_for_archive X pgdata backup sql s) = Fatal ArchiveInterrupted"
    by (simp add: wait_for_archive_after_query [OF assms] l result_of_def)
next
  assume h: "\<forall>k\<le>TIMEOUT_ARCHIVE. poll_present X rp (poll_world X rp (world s1) k) \<and>
              \<not> poll_interrupted X rp (poll_world X rp (world s1) k)"
  then have l: "wait_archive_loop X rp 0 s1 =
     (waiting_turns rp (Suc TIMEOUT_ARCHIVE),
      s1\<lparr>world := poll_world X rp (world s1) (Suc TIMEOUT_ARCHIVE)\<rparr>, Fatal ArchiveTimeout)"
    by (intro wait_archive_loop_times_out) simp_all
  show "events_of (wait_for_archive X pgdata backup sql s) =
         es0 @ waiting_turns rp (Suc TIMEOUT_ARCHIVE)"
    by (simp add: wait_for_archive_after_query [OF assms] l events_of_def)
  show "result_of (wait_for_archive X pgdata backup sql s) = Fatal ArchiveTimeout"
    by (simp add: wait_for_archive_after_query [OF assms] l result_of_def)
qed
lemma demo_ready_stat: "x_stat demo_env ''/data/pg_xlog/archive_status/000000010000000000000001.ready'' w =
   (if 0 < ready_polls w then StatOk \<lparr>st_mode = 0x8180\<rparr> else StatFail ENOENT \<lparr>st_mode = 0\<rparr>,
    w\<lparr>ready_polls := ready_polls w - 1\<rparr>)"
  by (simp add: demo_env_def demo_stat_def)

lemma demo_poll_present:
  "poll_present demo_env ''/data/pg_xlog/archive_status/000000010000000000000001.ready'' w = (0 < ready_polls w)"
  by (simp add: poll_present_def demo_ready_stat fileExists_test_def S_ISREG_def S_IFMT_def S_IFREG_def ENOENT_def)

lemma demo_poll_interrupted:
  "poll_interrupted demo_env ''/data/pg_xlog/archive_status/000000010000000000000001.ready'' w = interrupt w"
  by (simp add: poll_interrupted_def demo_ready_stat) (simp add: demo_env_def)

lemma demo_poll_next:
  "poll_next demo_env ''/data/pg_xlog/archive_status/000000010000000000000001.ready'' w =
     w\<lparr>ready_polls := ready_polls w - 1, clock := clock w + 1\<rparr>"
  by (simp add: poll_next_def demo_ready_stat) (simp add: demo_env_def)

lemma demo_poll_world:
  "ready_polls (poll_world demo_env ''/data/pg_xlog/archive_status/000000010000000000000001.ready'' w k)
     = ready_polls w - k \<and>
   interrupt (poll_world demo_env ''/data/pg_xlog/archive_status/000000010000000000000001.ready'' w k)
     = interrupt w"
  by (induction k arbitrary: w) (simp_all add: poll_world_Suc poll_world_0 demo_poll_next)

theorem wait_for_archive_polls_witness:
  "result_of (wait_for_archive_query demo_env ''/data'' True ''SELECT * FROM pg_switch_xlog()''
               (demo_state BACKUP_MODE_DIFF_PAGE demo_world0)) =
     Return ''/data/pg_xlog/archive_status/000000010000000000000001.ready'' \<and>
   poll_present demo_env ''/data/pg_xlog/archive_status/000000010000000000000001.ready''
     (poll_world demo_env ''/data/pg_xlog/archive_status/000000010000000000000001.ready''
        demo_world0 1) \<and>
   \<not> poll_present demo_env ''/data/pg_xlog/archive_status/000000010000000000000001.ready''
     (poll_world demo_env ''/data/pg_xlog/archive_status/000000010000000000000001.ready''
        demo_world0 2) \<and>
   events_of (wait_for_archive demo_env ''/data'' True ''SELECT * FROM pg_switch_xlog()''
               (demo_state BACKUP_MODE_DIFF_PAGE demo_world0)) =
     [EvExecute ''SET client_min_messages = warning;'' [],
      EvExecute ''SELECT * FROM pg_switch_xlog()'' [],
      EvExecute ''SELECT txid_current();'' []] @
     waiting_turns ''/data/pg_xlog/archive_status/000000010000000000000001.ready'' 2 @
     [EvArchivePoll ''/data/pg_xlog/archive_status/000000010000000000000001.ready'' False] \<and>
   result_of (wait_for_archive demo_env ''/data'' True ''SELECT * FROM pg_switch_xlog()''
               (demo_state BACKUP_MODE_DIFF_PAGE demo_world0)) = Return () \<and>
   result_of (wait_for_archive demo_env ''/data'' True ''SELECT * FROM pg_switch_xlog()''
               (demo_state BACKUP_MODE_DIFF_PAGE (demo_world0\<lparr>interrupt := True\<rparr>))) =
     Fatal ArchiveInterrupted \<and>
   result_of (wait_for_archive demo_env ''/data'' True ''SELECT * FROM pg_switch_xlog()''
               (demo_state BACKUP_MODE_DIFF_PAGE (demo_world0\<lparr>ready_polls := 20\<rparr>))) =
     Fatal ArchiveTimeout"
proof -
  let ?rp = "''/data/pg_xlog/archive_status/000000010000000000000001.ready''"
  let ?sql = "''SELECT * FROM pg_switch_xlog()''"
  let ?es0 = "[EvExecute ''SET client_min_messages = warning;'' [], EvExecute ?sql [],
               EvExecute ''SELECT txid_current();'' []]"
  let ?P = "\<lambda>w k. poll_present demo_env ?rp (poll_world demo_env ?rp w k)"
  let ?I = "\<lambda>w k. poll_interrupted demo_env ?rp (poll_world demo_env ?rp w k)"
  have q: "wait_for_archive_query demo_env ''/data'' True ?sql (demo_state BACKUP_MODE_DIFF_PAGE w) =
             (?es0,
              state_of (wait_for_archive_query demo_env ''/data'' True ?sql
                 (demo_state BACKUP_MODE_DIFF_PAGE w)),
              Return ?rp)"
     and w: "world (state_of (wait_for_archive_query demo_env ''/data'' True ?sql
                 (demo_state BACKUP_MODE_DIFF_PAGE w))) = w" for w
    by (simp_all add: wait_for_archive_query_def bind_def execute_def emit_def ext_try_def
        ext_do_def ext_call_def get_lsn_def get_xid_def modify_def ret_def demo_env_def
        demo_execute_def demo_state_def state_of_def snprintf_path_def MAXPGPATH_def
        TXID_CURRENT_SQL_def)
  have P: "?P w k = (0 < ready_polls w - k)" and I: "?I w k = interrupt w" for w k
    by (simp_all add: demo_poll_present demo_poll_interrupted demo_poll_world)
  have a: "\<forall>k<2. ?P demo_world0 k \<and> \<not> ?I demo_world0 k"
    and a2: "\<not> ?P demo_world0 2"
    by (simp_all add: P I demo_world0_def)
  have b: "?P (demo_world0\<lparr>interrupt := True\<rparr>) 0 \<and> ?I (demo_world0\<lparr>interrupt := True\<rparr>) 0"
    by (simp add: P I demo_world0_def)
  have c: "\<forall>k\<le>10. ?P (demo_world0\<lparr>ready_polls := 20\<rparr>) k \<and>
             \<not> ?I (demo_world0\<lparr>ready_polls := 20\<rparr>) k"
    by (simp add: P I demo_world0_def)
  note t = wait_for_archive_polls [OF q]
  have ra: "wait_for_archive demo_env ''/data'' True ?sql
              (demo_state BACKUP_MODE_DIFF_PAGE demo_world0) =
            (?es0 @ waiting_turns ?rp 2 @ [EvArchivePoll ?rp False],
             (state_of (wait_for_archive_query demo_env ''/data'' True ?sql
                 (demo_state BACKUP_MODE_DIFF_PAGE demo_world0)))
               \<lparr>world := snd (x_stat demo_env ?rp (poll_world demo_env ?rp demo_world0 2))\<rparr>,
             Return ())"
    using t [of demo_world0, THEN conjunct2, THEN conjunct2, THEN conjunct1, rule_format, of 2]
      a a2 by (simp add: w TIMEOUT_ARCHIVE_def)
  have rb: "result_of (wait_for_archive demo_env ''/data'' True ?sql
              (demo_state BACKUP_MODE_DIFF_PAGE (demo_world0\<lparr>interrupt := True\<rparr>))) =
            Fatal ArchiveInterrupted"
    using t [of "demo_world0\<lparr>interrupt := True\<rparr>", THEN conjunct2, THEN conjunct2,
        THEN conjunct2, THEN conjunct1, rule_format, of 0] b
    by (simp add: w)
  have rc: "result_of (wait_for_archive demo_env ''/data'' True ?sql
              (demo_state BACKUP_MODE_DIFF_PAGE (demo_world0\<lparr>ready_polls := 20\<rparr>))) =
            Fatal ArchiveTimeout"
    using t [of "demo_world0\<lparr>ready_polls := 20\<rparr>", THEN conjunct2, THEN conjunct2,
        THEN conjunct2, THEN conjunct2] c
    by (simp add: w TIMEOUT_ARCHIVE_def)
  have a1: "?P demo_world0 1" by (simp add: P demo_world0_def)
  have qr: "result_of (wait_for_archive_query demo_env ''/data'' True ?sql
               (demo_state BACKUP_MODE_DIFF_PAGE demo_world0)) = Return ?rp"
    by (subst q) (simp add: result_of_def)
  have ea: "events_of (wait_for_archive demo_env ''/data'' True ?sql
               (demo_state BACKUP_MODE_DIFF_PAGE demo_world0)) =
            ?es0 @ waiting_turns ?rp 2 @ [EvArchivePoll ?rp False]"
    by (subst ra) (simp add: events_of_def)
  have rra: "result_of (wait_for_archive demo_env ''/data'' True ?sql
               (demo_state BACKUP_MODE_DIFF_PAGE demo_world0)) = Return ()"
    by (subst ra) (simp add: result_of_def)
  from qr a1 a2 ea rra rb rc show ?thesis by (intro conjI)
qed
subsection \<open>\<^verbatim>\<open>backup_files\<close>\<close>

lemma bind_assoc: "bind (bind m f) g = bind m (\<lambda>a. bind (f a) g)"
  by (rule ext) (simp add: bind_def split: prod.splits result.splits)

lemma bind_ret_left: "bind (ret a) f = f a"
  by (rule ext) (simp add: bind_def ret_def split: prod.splits result.splits)

lemma bind_fatal_left: "bind (fatal e) f = fatal e"
  by (rule ext) (simp add: bind_def fatal_def)

lemma backup_files_loop_append:
  "backup_files_loop fuel X check from_root to_root prev_files lsn pfx (pre @ rest) i tv =
     bind (backup_files_loop fuel X check from_root to_root prev_files lsn pfx pre i tv)
       (\<lambda>tv'. backup_files_loop fuel X check from_root to_root prev_files lsn pfx rest
                (i + length pre) tv')"
proof (induction pre arbitrary: i tv)
  case Nil
  show ?case by (simp add: bind_ret_left)
next
  case (Cons f pre)
  show ?case
    by (simp add: Cons.IH bind_assoc case_prod_unfold)
qed

lemma backup_file_rewound:
  "fst tv < mtime file \<Longrightarrow>
   backup_file fuel X check from_root to_root prev_files lsn pfx tv file = fatal ClockRewound"
  by (simp add: backup_file_def)

lemma backup_files_loop_rewound:
  assumes "backup_files_loop fuel X check from_root to_root prev_files lsn pfx pre i tv s
             = (es, s1, Return tv1)"
    and "fst tv1 < mtime file"
  shows "backup_files_loop fuel X check from_root to_root prev_files lsn pfx
           (pre @ file # rest) i tv s = (es, s1, Fatal ClockRewound)"
  using assms
  by (simp add: backup_files_loop_append bind_def backup_file_rewound fatal_def)

lemma backup_files_eq:
  "backup_files fuel X check from_root to_root prev_files lsn pfx s =
     bind (backup_files_loop fuel X check from_root to_root prev_files lsn pfx
             (parray_qsort_path (backup_files_list s)) 0 (fst (x_gettimeofday X (world s))))
       (\<lambda>_. emit EvCopyDone)
       (s\<lparr>backup_files_list := parray_qsort_path (backup_files_list s),
          world := snd (x_gettimeofday X (world s))\<rparr>)"
  by (simp add: backup_files_def bind_def modify_def ext_call_def get_state_def
      split: prod.splits)

text \<open>
  C6: \<^verbatim>\<open>backup_files\<close> sorts the list and reads the clock. If the loop has gone through
  the entries before \<open>file\<close> and the clock variable \<^verbatim>\<open>tv.tv_sec\<close> is then less than the
  modification time of \<open>file\<close>, \<^verbatim>\<open>backup_files\<close> ends with the fatal error of the rewound
  clock; its events are those of the earlier entries, so neither \<open>file\<close> nor a later entry
  is handed to a copier.
\<close>

theorem backup_files_clock_rewound:
  assumes "parray_qsort_path (backup_files_list s) = pre @ file # rest"
    and "backup_files_loop fuel X check from_root to_root prev_files lsn pfx pre 0
           (fst (x_gettimeofday X (world s)))
           (s\<lparr>backup_files_list := parray_qsort_path (backup_files_list s),
              world := snd (x_gettimeofday X (world s))\<rparr>)
         = (es, s1, Return tv1)"
    and "fst tv1 < mtime file"
  shows "backup_files fuel X check from_root to_root prev_files lsn pfx s
           = (es, s1, Fatal ClockRewound)"
  using backup_files_loop_rewound [OF assms(2,3), of rest]
  by (simp add: backup_files_eq assms(1) bind_def)

lemma reading_0: "reading X r 0 = r"
  by (simp add: reading_def)

lemma reading_Suc: "reading X r (Suc k) = reading X (next_reading X r) k"
  by (simp add: reading_def funpow_swap1)

lemma sleeps_0: "sleeps X r 0 = []"
  by (simp add: sleeps_def)

lemma sleeps_Suc:
  "sleeps X r (Suc n) = EvUsleep (1000000 - snd (fst r)) # sleeps X (next_reading X r) n"
proof -
  have "[0..<Suc n] = 0 # map Suc [0..<n]"
    by (simp add: upt_conv_Cons map_Suc_upt del: upt_Suc)
  then show ?thesis
    by (simp add: sleeps_def reading_0 reading_Suc comp_def del: upt_Suc)
qed

lemma wait_next_second_step:
  "fst tv \<le> mt \<Longrightarrow>
   wait_next_second (Suc fuel) X mt tv s =
     (case wait_next_second fuel X mt (fst (next_reading X (tv, world s)))
             (s\<lparr>world := snd (next_reading X (tv, world s))\<rparr>) of
        (es, s', r) \<Rightarrow> (EvUsleep (1000000 - snd tv) # es, s', r))"
  by (simp add: wait_next_second.simps bind_def emit_def ext_do_def ext_call_def
      next_reading_def split: prod.splits result.splits)

lemma wait_next_second_done:
  "mt < fst tv \<Longrightarrow> wait_next_second fuel X mt tv s = ([], s, Return tv)"
  by (cases fuel) (simp_all add: wait_next_second.simps ret_def)

lemma wait_next_second_returns:
  "\<lbrakk>\<forall>k<n. fst (fst (reading X (tv, world s) k)) \<le> mt;
    mt < fst (fst (reading X (tv, world s) n)); n \<le> fuel\<rbrakk> \<Longrightarrow>
   wait_next_second fuel X mt tv s =
     (sleeps X (tv, world s) n, s\<lparr>world := snd (reading X (tv, world s) n)\<rparr>,
      Return (fst (reading X (tv, world s) n)))"
proof (induction n arbitrary: fuel tv s)
  case 0
  then show ?case
    by (simp add: reading_0 sleeps_0 wait_next_second_done)
next
  case (Suc n)
  from Suc.prems(3) obtain f where f: "fuel = Suc f" "n \<le> f"
    by (cases fuel) auto
  from Suc.prems(1) have here: "fst tv \<le> mt"
    using reading_0 [of X "(tv, world s)"] by (metis fst_conv zero_less_Suc)
  let ?r = "next_reading X (tv, world s)"
  let ?s = "s\<lparr>world := snd ?r\<rparr>"
  have r: "(fst ?r, world ?s) = ?r" by simp
  have "\<forall>k<n. fst (fst (reading X (fst ?r, world ?s) k)) \<le> mt"
    using Suc.prems(1) by (auto simp: reading_Suc r)
  moreover have "mt < fst (fst (reading X (fst ?r, world ?s) n))"
    using Suc.prems(2) by (simp add: reading_Suc r)
  ultimately have "wait_next_second f X mt (fst ?r) ?s =
     (sleeps X (fst ?r, world ?s) n, ?s\<lparr>world := snd (reading X (fst ?r, world ?s) n)\<rparr>,
      Return (fst (reading X (fst ?r, world ?s) n)))"
    using f(2) by (rule Suc.IH)
  then show ?case
    using here by (simp add: f(1) wait_next_second_step sleeps_Suc reading_Suc r)
qed

lemma wait_next_second_safe:
  "wait_next_second fuel X mt tv s = (es, s', Return tv') \<Longrightarrow>
   mt < fst tv' \<and> (\<forall>e\<in>set es. \<not> is_copy e)"
proof (induction fuel arbitrary: tv s es)
  case 0
  then show ?case by (auto simp: wait_next_second.simps ret_def split: if_splits)
next
  case (Suc fuel)
  show ?case
  proof (cases "fst tv \<le> mt")
    case True
    with Suc.prems obtain es1 where
      "wait_next_second fuel X mt (fst (next_reading X (tv, world s)))
         (s\<lparr>world := snd (next_reading X (tv, world s))\<rparr>) = (es1, s', Return tv')"
      "es = EvUsleep (1000000 - snd tv) # es1"
      by (auto simp: wait_next_second_step split: prod.splits)
    with Suc.IH show ?thesis by fastforce
  next
    case False
    with Suc.prems show ?thesis by (auto simp: wait_next_second.simps ret_def)
  qed
qed

lemma wait_next_second_events:
  "\<forall>e\<in>set (events_of (wait_next_second fuel X mt tv s)). \<not> is_copy e"
proof (induction fuel arbitrary: tv s)
  case 0
  then show ?case by (simp add: wait_next_second.simps ret_def events_of_def)
next
  case (Suc fuel)
  show ?case
  proof (cases "fst tv \<le> mt")
    case True
    then show ?thesis
      using Suc.IH [of "fst (next_reading X (tv, world s))"
          "s\<lparr>world := snd (next_reading X (tv, world s))\<rparr>"]
      by (simp add: wait_next_second_step events_of_def split: prod.splits)
  next
    case False
    then show ?thesis by (simp add: wait_next_second.simps ret_def events_of_def)
  qed
qed

lemma wait_mtime_passed_safe:
  assumes "wait_mtime_passed fuel X file tv s = (es, s', r)"
  shows "(\<forall>e\<in>set es. \<not> is_copy e) \<and>
         (\<forall>tv1. r = Return tv1 \<and> mtime file \<le> fst tv \<longrightarrow> mtime file < fst tv1)"
proof (cases "fst tv = mtime file")
  case True
  obtain tv0 w0 where g: "x_gettimeofday X (world s) = (tv0, w0)" by fastforce
  from assms True g have w: "wait_next_second fuel X (mtime file) tv0 (s\<lparr>world := w0\<rparr>) = (es, s', r)"
    by (simp add: wait_mtime_passed_def bind_def ext_call_def split: prod.splits result.splits)
  from wait_next_second_events [of fuel X "mtime file" tv0 "s\<lparr>world := w0\<rparr>"] w
  have "\<forall>e\<in>set es. \<not> is_copy e" by (simp add: events_of_def)
  moreover have "mtime file < fst tv1" if "r = Return tv1" for tv1
    using wait_next_second_safe w that by blast
  ultimately show ?thesis by blast
next
  case False
  with assms show ?thesis by (auto simp: wait_mtime_passed_def ret_def)
qed

lemma wait_mtime_passed_returns:
  assumes "fst tv = mtime file"
    and "\<forall>k<n. fst (fst (reading X (x_gettimeofday X (world s)) k)) \<le> mtime file"
    and "mtime file < fst (fst (reading X (x_gettimeofday X (world s)) n))"
    and "n \<le> fuel"
  shows "wait_mtime_passed fuel X file tv s =
           (sleeps X (x_gettimeofday X (world s)) n,
            s\<lparr>world := snd (reading X (x_gettimeofday X (world s)) n)\<rparr>,
            Return (fst (reading X (x_gettimeofday X (world s)) n)))"
proof -
  obtain tv0 w0 where g: "x_gettimeofday X (world s) = (tv0, w0)" by fastforce
  have "wait_next_second fuel X (mtime file) tv0 (s\<lparr>world := w0\<rparr>) =
     (sleeps X (tv0, world (s\<lparr>world := w0\<rparr>)) n,
      (s\<lparr>world := w0\<rparr>)\<lparr>world := snd (reading X (tv0, world (s\<lparr>world := w0\<rparr>)) n)\<rparr>,
      Return (fst (reading X (tv0, world (s\<lparr>world := w0\<rparr>)) n)))"
    using assms(2,3,4) by (intro wait_next_second_returns) (simp_all add: g)
  then show ?thesis
    using assms(1) by (simp add: wait_mtime_passed_def bind_def ext_call_def g)
qed

lemma copy_one_file_events:
  "\<forall>e\<in>set (events_of (copy_one_file X from_root to_root lsn tv file s)).
     is_copy e \<longrightarrow> copy_clock e = fst tv"
  by (simp add: copy_one_file_def bind_def emit_def ext_try_def ret_def events_of_def
      split: prod.splits result.splits sum.splits)

lemma copy_regular_file_events:
  assumes "mtime file \<le> fst tv"
  shows "\<forall>e\<in>set (events_of (copy_regular_file fuel X from_root to_root lsn tv file s)).
           is_copy e \<longrightarrow> mtime file < copy_clock e"
proof -
  obtain es s1 r where w: "wait_mtime_passed fuel X file tv s = (es, s1, r)"
    by (metis prod_cases3)
  note safe = wait_mtime_passed_safe [OF w]
  show ?thesis
  proof (cases r)
    case (Return tv1)
    with safe assms have lt: "mtime file < fst tv1" by blast
    obtain es2 s2 r2 where c: "copy_one_file X from_root to_root lsn tv1 file s1 = (es2, s2, r2)"
      by (metis prod_cases3)
    from copy_one_file_events [of X from_root to_root lsn tv1 "file" s1] c
    have "\<forall>e\<in>set es2. is_copy e \<longrightarrow> copy_clock e = fst tv1" by (simp add: events_of_def)
    with lt safe show ?thesis
      by (auto simp: copy_regular_file_def bind_def w Return c events_of_def)
  next
    case (Fatal e)
    with safe show ?thesis
      by (auto simp: copy_regular_file_def bind_def w events_of_def)
  next
    case OutOfFuel
    with safe show ?thesis
      by (auto simp: copy_regular_file_def bind_def w events_of_def)
  qed
qed

lemma backup_file_copy_clock:
  "\<forall>e\<in>set (events_of (backup_file fuel X check from_root to_root prev_files lsn pfx tv file s)).
     is_copy e \<longrightarrow> mtime file < copy_clock e"
proof (cases "fst tv < mtime file")
  case True
  then show ?thesis by (simp add: backup_file_rewound fatal_def events_of_def)
next
  case False
  then have le: "mtime file \<le> fst tv" by simp
  obtain i w1 where i: "x_interrupted X (world s) = (i, w1)" by fastforce
  obtain st w2 where st: "x_stat X (path file) w1 = (st, w2)" by fastforce
  note c = copy_regular_file_events [OF le, of fuel X from_root to_root lsn "s\<lparr>world := w2\<rparr>"]
  show ?thesis
    using False c
    by (cases st)
      (auto simp: backup_file_def bind_def ext_call_def i st fatal_def ret_def emit_def
        ext_try_def events_of_def split: prod.splits result.splits sum.splits if_splits)
qed

text \<open>
  C7: in a turn of the loop of \<^verbatim>\<open>backup_files\<close>, every file handed to a copier is handed
  over while the clock variable \<^verbatim>\<open>tv.tv_sec\<close> is greater than the modification time of
  the file. The wait before the copy hands no file to a copier, and it returns a clock
  value greater than the modification time (the clock was not behind it at the start of
  the turn). When the clock variable equals the modification time, the wait reads the
  clock again and, as long as the value read is not greater, sleeps to the end of the
  second and reads again: if the reading number \<open>n\<close> is the first greater one and the fuel
  allows \<open>n\<close> sleeps, the wait returns that reading after \<open>n\<close> sleeps.
\<close>

theorem backup_file_waits_for_next_second:
  "(\<forall>e\<in>set (events_of
       (backup_file fuel X check from_root to_root prev_files lsn pfx tv file s)).
      is_copy e \<longrightarrow> mtime file < copy_clock e) \<and>
   (\<forall>es s' r. wait_mtime_passed fuel X file tv s = (es, s', r) \<longrightarrow>
      (\<forall>e\<in>set es. \<not> is_copy e) \<and>
      (\<forall>tv1. r = Return tv1 \<and> mtime file \<le> fst tv \<longrightarrow> mtime file < fst tv1)) \<and>
   (\<forall>n. fst tv = mtime file \<and> n \<le> fuel \<and>
      (\<forall>k<n. fst (fst (reading X (x_gettimeofday X (world s)) k)) \<le> mtime file) \<and>
      mtime file < fst (fst (reading X (x_gettimeofday X (world s)) n)) \<longrightarrow>
      wait_mtime_passed fuel X file tv s =
        (sleeps X (x_gettimeofday X (world s)) n,
         s\<lparr>world := snd (reading X (x_gettimeofday X (world s)) n)\<rparr>,
         Return (fst (reading X (x_gettimeofday X (world s)) n))))"
proof -
  have a: "\<forall>e\<in>set (events_of
       (backup_file fuel X check from_root to_root prev_files lsn pfx tv file s)).
      is_copy e \<longrightarrow> mtime file < copy_clock e"
    by (rule backup_file_copy_clock)
  have b: "\<forall>es s' r. wait_mtime_passed fuel X file tv s = (es, s', r) \<longrightarrow>
      (\<forall>e\<in>set es. \<not> is_copy e) \<and>
      (\<forall>tv1. r = Return tv1 \<and> mtime file \<le> fst tv \<longrightarrow> mtime file < fst tv1)"
    using wait_mtime_passed_safe by blast
  have c: "wait_mtime_passed fuel X file tv s =
        (sleeps X (x_gettimeofday X (world s)) n,
         s\<lparr>world := snd (reading X (x_gettimeofday X (world s)) n)\<rparr>,
         Return (fst (reading X (x_gettimeofday X (world s)) n)))"
    if "fst tv = mtime file \<and> n \<le> fuel \<and>
      (\<forall>k<n. fst (fst (reading X (x_gettimeofday X (world s)) k)) \<le> mtime file) \<and>
      mtime file < fst (fst (reading X (x_gettimeofday X (world s)) n))" for n
    using that by (intro wait_mtime_passed_returns) simp_all
  from a b c show ?thesis by blast
qed

lemma strcmp_less: "strcmp a b < 0 \<longleftrightarrow> a < b"
  by (simp add: strcmp_def)

lemma strcmp_greater: "0 < strcmp a b \<longleftrightarrow> b < a"
  by (auto simp: strcmp_def)

lemma bsearch_loop_finds:
  assumes "sorted_wrt (\<lambda>a b. path a < path b) base"
    and "l \<le> k" and "k < u" and "u \<le> length base" and "path (base ! k) = path key"
  shows "bsearch_loop pgFileComparePath key base l u = Some (base ! k)"
  using assms(2,3,4)
proof (induction "u - l" arbitrary: l u rule: less_induct)
  case less
  let ?idx = "(l + u) div 2"
  have idx: "l \<le> ?idx" "?idx < u" using less.prems by auto
  have mono: "path (base ! i) < path (base ! j)" if "i < j" "j < length base" for i j
    using assms(1) that by (simp add: sorted_wrt_iff_nth_less)
  have lu: "l < u" using less.prems by simp
  consider (lt) "k < ?idx" | (eq) "k = ?idx" | (gt) "?idx < k" by linarith
  then show ?case
  proof cases
    case lt
    then have c: "pgFileComparePath key (base ! ?idx) < 0"
      using mono [of k ?idx] idx less.prems assms(5)
      by (simp add: pgFileComparePath_def strcmp_less)
    have "bsearch_loop pgFileComparePath key base l ?idx = Some (base ! k)"
      using less.prems lt idx by (intro less.hyps) auto
    then show ?thesis
      using c lu by (subst bsearch_loop.simps) (simp add: Let_def)
  next
    case eq
    then have c: "pgFileComparePath key (base ! ?idx) = 0"
      using assms(5) by (simp add: pgFileComparePath_def strcmp_def)
    then show ?thesis
      using lu eq by (subst bsearch_loop.simps) (simp add: Let_def)
  next
    case gt
    then have c: "0 < pgFileComparePath key (base ! ?idx)"
      using mono [of ?idx k] less.prems assms(5)
      by (simp add: pgFileComparePath_def strcmp_greater)
    then have nc: "\<not> pgFileComparePath key (base ! ?idx) < 0" by simp
    have "bsearch_loop pgFileComparePath key base (?idx + 1) u = Some (base ! k)"
      using less.prems gt idx by (intro less.hyps) auto
    then show ?thesis
      using c nc lu by (subst bsearch_loop.simps) (simp add: Let_def)
  qed
qed

lemma parray_bsearch_finds:
  assumes "sorted_wrt (\<lambda>a b. path a < path b) prev" and "p \<in> set prev" and "path p = path key"
  shows "parray_bsearch prev key pgFileComparePath = Some p"
proof -
  from assms(2) obtain k where k: "k < length prev" "prev ! k = p"
    by (auto simp: in_set_conv_nth)
  from bsearch_loop_finds [OF assms(1), of 0 k "length prev" key] k assms(3)
  show ?thesis by (simp add: parray_bsearch_def)
qed

lemma S_ISREG_not_DIR: "S_ISREG m \<Longrightarrow> \<not> S_ISDIR m"
  by (auto simp: S_ISREG_def S_ISDIR_def S_IFREG_def S_IFDIR_def)

lemma backup_file_skip_events:
  assumes "sorted_wrt (\<lambda>a b. path a < path b) prev" and "p \<in> set prev"
    and "path p = path file" and "mtime p = mtime file"
  shows "\<forall>e\<in>set (events_of
           (backup_file fuel X check from_root to_root (Some prev) lsn None tv file s)).
           \<not> is_copy e"
proof -
  have f: "find_prev_file X from_root None prev file = Some p"
    using parray_bsearch_finds [OF assms(1,2,3)] by (simp add: find_prev_file_def)
  obtain i w1 where i: "x_interrupted X (world s) = (i, w1)" by fastforce
  obtain st w2 where st: "x_stat X (path file) w1 = (st, w2)" by fastforce
  show ?thesis
    by (cases st)
      (auto simp: backup_file_def bind_def ext_call_def i st fatal_def ret_def emit_def
        ext_try_def events_of_def f assms(4)
        split: prod.splits result.splits sum.splits if_splits)
qed

lemma backup_file_skips:
  assumes "sorted_wrt (\<lambda>a b. path a < path b) prev" and "p \<in> set prev"
    and "path p = path file" and "mtime p = mtime file"
    and "\<not> fst tv < mtime file"
    and "\<not> fst (x_interrupted X (world s))"
    and "fst (x_stat X (path file) (snd (x_interrupted X (world s)))) = StatOk buf"
    and "S_ISREG (st_mode buf)"
  shows "backup_file fuel X check from_root to_root (Some prev) lsn None tv file s =
           ([], s\<lparr>world := snd (x_stat X (path file) (snd (x_interrupted X (world s))))\<rparr>,
            Return (tv, file\<lparr>write_size := BYTES_INVALID\<rparr>))"
proof -
  have f: "find_prev_file X from_root None prev file = Some p"
    using parray_bsearch_finds [OF assms(1,2,3)] by (simp add: find_prev_file_def)
  obtain i w1 where i: "x_interrupted X (world s) = (i, w1)" by fastforce
  obtain st w2 where st: "x_stat X (path file) w1 = (st, w2)" by fastforce
  from assms(5-8) S_ISREG_not_DIR [OF assms(8)] show ?thesis
    by (simp add: backup_file_def bind_def ext_call_def i st ret_def f assms(4) skipped_def)
qed

text \<open>
  C10: \<^verbatim>\<open>backup_files\<close> is given the file list \<open>prev\<close> of the previous backup, sorted by
  path with no path twice (as \<^verbatim>\<open>parray_bsearch\<close> needs it), and no prefix. If an entry of
  \<open>prev\<close> has the path and the modification time of \<open>file\<close>, the turn of the loop for
  \<open>file\<close> hands nothing to a copier, whatever the outcome of the turn. If moreover the
  turn reaches the test (the clock is not behind the modification time, no interrupt is
  seen, \<^verbatim>\<open>stat\<close> finds a regular file), it has no event at all and returns the entry with
  \<^verbatim>\<open>write_size\<close> set to \<^verbatim>\<open>BYTES_INVALID\<close> and the clock variable unchanged; the loop then
  goes on with the next entry. Nothing is assumed of the page map of \<open>file\<close>.
\<close>

theorem backup_file_unmodified_skipped:
  assumes "sorted_wrt (\<lambda>a b. path a < path b) prev" and "p \<in> set prev"
    and "path p = path file" and "mtime p = mtime file"
  shows "(\<forall>e\<in>set (events_of
            (backup_file fuel X check from_root to_root (Some prev) lsn None tv file s)).
            \<not> is_copy e) \<and>
         (\<not> fst tv < mtime file \<and> \<not> fst (x_interrupted X (world s)) \<and>
          fst (x_stat X (path file) (snd (x_interrupted X (world s)))) = StatOk buf \<and>
          S_ISREG (st_mode buf) \<longrightarrow>
            backup_file fuel X check from_root to_root (Some prev) lsn None tv file s =
              ([], s\<lparr>world := snd (x_stat X (path file) (snd (x_interrupted X (world s))))\<rparr>,
               Return (tv, file\<lparr>write_size := BYTES_INVALID\<rparr>)) \<and>
            backup_files_loop fuel X check from_root to_root (Some prev) lsn None
              (file # rest) i tv s =
            backup_files_loop fuel X check from_root to_root (Some prev) lsn None rest (Suc i) tv
              (s\<lparr>world := snd (x_stat X (path file) (snd (x_interrupted X (world s)))),
                 backup_files_list :=
                   (backup_files_list s)[i := file\<lparr>write_size := BYTES_INVALID\<rparr>]\<rparr>))"
proof (intro conjI impI)
  show "\<forall>e\<in>set (events_of
            (backup_file fuel X check from_root to_root (Some prev) lsn None tv file s)).
            \<not> is_copy e"
    using assms by (rule backup_file_skip_events)
next
  assume h: "\<not> fst tv < mtime file \<and> \<not> fst (x_interrupted X (world s)) \<and>
          fst (x_stat X (path file) (snd (x_interrupted X (world s)))) = StatOk buf \<and>
          S_ISREG (st_mode buf)"
  then show t: "backup_file fuel X check from_root to_root (Some prev) lsn None tv file s =
              ([], s\<lparr>world := snd (x_stat X (path file) (snd (x_interrupted X (world s))))\<rparr>,
               Return (tv, file\<lparr>write_size := BYTES_INVALID\<rparr>))"
    using backup_file_skips [OF assms, of tv X s buf] by simp
  show "backup_files_loop fuel X check from_root to_root (Some prev) lsn None
              (file # rest) i tv s =
            backup_files_loop fuel X check from_root to_root (Some prev) lsn None rest (Suc i) tv
              (s\<lparr>world := snd (x_stat X (path file) (snd (x_interrupted X (world s)))),
                 backup_files_list :=
                   (backup_files_list s)[i := file\<lparr>write_size := BYTES_INVALID\<rparr>]\<rparr>)"
    by (simp add: bind_def t modify_def split: prod.splits result.splits)
qed

subsection \<open>The copy loop on the small environment\<close>

lemma out_collapse: "(events_of r, state_of r, result_of r) = r"
  by (simp add: events_of_def state_of_def result_of_def)

lemma demo_env_sel:
  "x_stat demo_env = demo_stat"
  "x_time demo_env = (\<lambda>w. (clock w, w))"
  "x_gettimeofday demo_env = (\<lambda>w. ((clock w, 0), w))"
  "x_sleep demo_env = (\<lambda>n w. w\<lparr>clock := clock w + int n\<rparr>)"
  "x_usleep demo_env = (\<lambda>n w. w\<lparr>clock := clock w + 1\<rparr>)"
  "x_interrupted demo_env = (\<lambda>w. (interrupt w, w))"
  "x_join_path_components demo_env = (\<lambda>a b. a @ ''/'' @ b)"
  "x_JoinPathEnd demo_env = (\<lambda>str pre. drop (length pre + 1) str)"
  "x_dir_create_dir demo_env = (\<lambda>p w. (Inr (), w))"
  "x_copy_file demo_env = (\<lambda>from_root to_root file w.
        (Inr (True, file\<lparr>read_size := file_size file, write_size := file_size file\<rparr>), w))"
  "x_backup_data_file demo_env = (\<lambda>from_root to_root file lsn w.
        (Inr (True, file\<lparr>read_size := file_size file, write_size := file_size file\<rparr>), w))"
  by (simp_all add: demo_env_def)

lemma demo_sort:
  "parray_qsort_path [demo_file ''/data/base'' 0x41C0 100, demo_file ''/data/base/100'' 0x8180 100,
      demo_file ''/data/PG_VERSION'' 0x8180 50] =
   [demo_file ''/data/PG_VERSION'' 0x8180 50, demo_file ''/data/base'' 0x41C0 100,
    demo_file ''/data/base/100'' 0x8180 100]"
  by (simp add: parray_qsort_path_def demo_file_def less_char_def)

lemma demo_turn_copy:
  "interrupt (world s) = False \<Longrightarrow>
   backup_file fuel demo_env False ''/data'' ''/backup/1/database'' None None None (70, 0)
     (demo_file ''/data/PG_VERSION'' 0x8180 50) s =
   ([EvCopyFile ''/data/PG_VERSION'' 70], s,
    Return ((70, 0),
      (demo_file ''/data/PG_VERSION'' 0x8180 50)\<lparr>read_size := 8192, write_size := 8192\<rparr>))"
  by (simp add: backup_file_def copy_regular_file_def wait_mtime_passed_def copy_one_file_def
      bind_def ext_call_def ext_try_def emit_def ret_def fatal_def demo_env_sel demo_stat_def
      demo_file_def S_ISREG_def S_ISDIR_def S_IFMT_def S_IFREG_def S_IFDIR_def)

theorem backup_files_clock_rewound_witness:
  "parray_qsort_path
     [demo_file ''/data/base'' 0x41C0 100, demo_file ''/data/base/100'' 0x8180 100,
      demo_file ''/data/PG_VERSION'' 0x8180 50] =
     [demo_file ''/data/PG_VERSION'' 0x8180 50] @ demo_file ''/data/base'' 0x41C0 100 #
     [demo_file ''/data/base/100'' 0x8180 100] \<and>
   (70 :: int) < mtime (demo_file ''/data/base'' 0x41C0 100) \<and>
   events_of (backup_files 3 demo_env False ''/data'' ''/backup/1/database'' None None None
     ((demo_state BACKUP_MODE_FULL (demo_world0\<lparr>clock := 70\<rparr>))\<lparr>backup_files_list :=
        [demo_file ''/data/base'' 0x41C0 100, demo_file ''/data/base/100'' 0x8180 100,
         demo_file ''/data/PG_VERSION'' 0x8180 50]\<rparr>)) =
     [EvCopyFile ''/data/PG_VERSION'' 70] \<and>
   result_of (backup_files 3 demo_env False ''/data'' ''/backup/1/database'' None None None
     ((demo_state BACKUP_MODE_FULL (demo_world0\<lparr>clock := 70\<rparr>))\<lparr>backup_files_list :=
        [demo_file ''/data/base'' 0x41C0 100, demo_file ''/data/base/100'' 0x8180 100,
         demo_file ''/data/PG_VERSION'' 0x8180 50]\<rparr>)) =
     Fatal ClockRewound"
proof -
  let ?pgv = "demo_file ''/data/PG_VERSION'' 0x8180 50"
  let ?base = "demo_file ''/data/base'' 0x41C0 100"
  let ?b100 = "demo_file ''/data/base/100'' 0x8180 100"
  let ?s = "(demo_state BACKUP_MODE_FULL (demo_world0\<lparr>clock := 70\<rparr>))\<lparr>backup_files_list :=
              [?base, ?b100, ?pgv]\<rparr>"
  let ?s1 = "?s\<lparr>backup_files_list := parray_qsort_path (backup_files_list ?s),
               world := snd (x_gettimeofday demo_env (world ?s))\<rparr>"
  let ?s2 = "?s1\<lparr>backup_files_list := (backup_files_list ?s1)
               [0 := ?pgv\<lparr>read_size := 8192, write_size := 8192\<rparr>]\<rparr>"
  have srt: "parray_qsort_path (backup_files_list ?s) = [?pgv] @ ?base # [?b100]"
    by (simp add: demo_sort)
  have tv0: "fst (x_gettimeofday demo_env (world ?s)) = (70, 0)"
    by (simp add: demo_env_sel demo_state_def demo_world0_def)
  have i: "interrupt (world ?s1) = False"
    by (simp add: demo_env_sel demo_state_def demo_world0_def)
  have lp: "backup_files_loop 3 demo_env False ''/data'' ''/backup/1/database'' None None None
              [?pgv] 0 (fst (x_gettimeofday demo_env (world ?s))) ?s1 =
            ([EvCopyFile ''/data/PG_VERSION'' 70], ?s2, Return (70, 0))"
    by (simp only: tv0 backup_files_loop.simps)
      (simp add: bind_def demo_turn_copy modify_def ret_def demo_env_sel demo_state_def
        demo_world0_def)
  have lt: "fst (70 :: int, 0 :: int) < mtime ?base" by (simp add: demo_file_def)
  from backup_files_clock_rewound [OF srt lp lt]
  have r: "backup_files 3 demo_env False ''/data'' ''/backup/1/database'' None None None ?s =
             ([EvCopyFile ''/data/PG_VERSION'' 70], ?s2, Fatal ClockRewound)" .
  have e: "events_of (backup_files 3 demo_env False ''/data'' ''/backup/1/database'' None None
             None ?s) = [EvCopyFile ''/data/PG_VERSION'' 70]"
    by (subst r) (simp add: events_of_def)
  have f: "result_of (backup_files 3 demo_env False ''/data'' ''/backup/1/database'' None None
             None ?s) = Fatal ClockRewound"
    by (subst r) (simp add: result_of_def)
  have lt': "(70 :: int) < mtime ?base" by (simp add: demo_file_def)
  have srt': "parray_qsort_path [?base, ?b100, ?pgv] = [?pgv] @ ?base # [?b100]"
    by (simp add: demo_sort)
  from srt' lt' e f show ?thesis by (intro conjI)
qed

lemma demo_reading:
  "reading demo_env ((t, u), w) k = ((t + int k, if k = 0 then u else 0), w\<lparr>clock := t + int k\<rparr>)"
  if "clock w = t"
  using that
proof (induction k arbitrary: t u w)
  case 0
  then show ?case by (simp add: reading_0)
next
  case (Suc k)
  have n: "next_reading demo_env ((t, u), w) = ((t + 1, 0), w\<lparr>clock := t + 1\<rparr>)"
    using Suc.prems by (simp add: next_reading_def demo_env_sel)
  show ?case
    by (simp add: reading_Suc n Suc.IH [of "w\<lparr>clock := t + 1\<rparr>" "t + 1" 0])
qed

theorem backup_file_waits_for_next_second_witness:
  "fst (100 :: int, 0 :: int) = mtime (demo_file ''/data/base/100'' 0x8180 100) \<and>
   wait_mtime_passed 3 demo_env (demo_file ''/data/base/100'' 0x8180 100) (100, 0)
     (demo_state BACKUP_MODE_FULL (demo_world0\<lparr>clock := 100\<rparr>)) =
     ([EvUsleep 1000000],
      demo_state BACKUP_MODE_FULL (demo_world0\<lparr>clock := 101\<rparr>), Return (101, 0)) \<and>
   (\<exists>e\<in>set (events_of
       (backup_file 3 demo_env False ''/data'' ''/backup/1/database'' None None None (100, 0)
          (demo_file ''/data/base/100'' 0x8180 100)
          (demo_state BACKUP_MODE_FULL (demo_world0\<lparr>clock := 100\<rparr>)))).
      is_copy e \<and> e = EvCopyFile ''/data/base/100'' 101 \<and>
      mtime (demo_file ''/data/base/100'' 0x8180 100) < copy_clock e)"
proof -
  let ?f = "demo_file ''/data/base/100'' 0x8180 100"
  let ?s = "demo_state BACKUP_MODE_FULL (demo_world0\<lparr>clock := 100\<rparr>)"
  note t = backup_file_waits_for_next_second
    [of 3 demo_env False "''/data''" "''/backup/1/database''" None None None "(100, 0)" ?f ?s]
  have g: "x_gettimeofday demo_env (world ?s) = ((100, 0), world ?s)"
    by (simp add: demo_env_sel demo_state_def demo_world0_def)
  have c: "clock (world ?s) = 100" by (simp add: demo_state_def demo_world0_def)
  have m: "mtime ?f = 100" by (simp add: demo_file_def)
  have h: "fst (100 :: int, 0 :: int) = mtime ?f \<and> 1 \<le> (3 :: nat) \<and>
      (\<forall>k<1. fst (fst (reading demo_env (x_gettimeofday demo_env (world ?s)) k)) \<le> mtime ?f) \<and>
      mtime ?f < fst (fst (reading demo_env (x_gettimeofday demo_env (world ?s)) 1))"
    by (simp add: g demo_reading [OF c] m)
  note w0 = t [THEN conjunct2, THEN conjunct2, rule_format, OF h]
  have w: "wait_mtime_passed 3 demo_env ?f (100, 0) ?s =
             ([EvUsleep 1000000], demo_state BACKUP_MODE_FULL (demo_world0\<lparr>clock := 101\<rparr>),
              Return (101, 0))"
    using w0 unfolding g demo_reading [OF c] sleeps_def
    by (simp add: demo_state_def demo_world0_def)
  have ev: "events_of (backup_file 3 demo_env False ''/data'' ''/backup/1/database'' None None
              None (100, 0) ?f ?s) = [EvUsleep 1000000, EvCopyFile ''/data/base/100'' 101]"
    using w
    by (simp add: backup_file_def copy_regular_file_def copy_one_file_def
        bind_def ext_call_def ext_try_def emit_def ret_def fatal_def demo_env_sel demo_stat_def
        demo_file_def S_ISREG_def S_ISDIR_def S_IFMT_def S_IFREG_def S_IFDIR_def
        demo_state_def demo_world0_def events_of_def)
  have "EvCopyFile ''/data/base/100'' 101 \<in> set (events_of
       (backup_file 3 demo_env False ''/data'' ''/backup/1/database'' None None None (100, 0)
          ?f ?s))"
    by (simp add: ev)
  moreover from this t [THEN conjunct1]
  have "mtime ?f < copy_clock (EvCopyFile ''/data/base/100'' 101)"
    by (metis is_copy.simps(1))
  ultimately have ex: "\<exists>e\<in>set (events_of
       (backup_file 3 demo_env False ''/data'' ''/backup/1/database'' None None None (100, 0)
          ?f ?s)).
      is_copy e \<and> e = EvCopyFile ''/data/base/100'' 101 \<and> mtime ?f < copy_clock e"
    by (intro bexI [of _ "EvCopyFile ''/data/base/100'' 101"]) simp_all
  have m': "fst (100 :: int, 0 :: int) = mtime ?f" by (simp add: m)
  from m' w ex show ?thesis by (intro conjI)
qed

theorem backup_file_unmodified_skipped_witness:
  "sorted_wrt (\<lambda>a b. path a < path b)
     [demo_file ''/data/PG_VERSION'' 0x8180 50, demo_file ''/data/base/100'' 0x8180 90] \<and>
   (\<exists>p\<in>set [demo_file ''/data/PG_VERSION'' 0x8180 50, demo_file ''/data/base/100'' 0x8180 90].
      path p = path ((demo_file ''/data/PG_VERSION'' 0x8180 50)\<lparr>pagemap := {0, 1}\<rparr>) \<and>
      mtime p = mtime ((demo_file ''/data/PG_VERSION'' 0x8180 50)\<lparr>pagemap := {0, 1}\<rparr>)) \<and>
   backup_file 3 demo_env False ''/data'' ''/backup/1/database''
     (Some [demo_file ''/data/PG_VERSION'' 0x8180 50, demo_file ''/data/base/100'' 0x8180 90])
     (Some 5) None (200, 0) ((demo_file ''/data/PG_VERSION'' 0x8180 50)\<lparr>pagemap := {0, 1}\<rparr>)
     (demo_state BACKUP_MODE_DIFF_PAGE demo_world0) =
     ([], demo_state BACKUP_MODE_DIFF_PAGE demo_world0,
      Return ((200, 0),
        (demo_file ''/data/PG_VERSION'' 0x8180 50)\<lparr>pagemap := {0, 1}, write_size := - 1\<rparr>))"
proof -
  let ?pgv = "demo_file ''/data/PG_VERSION'' 0x8180 50"
  let ?old = "demo_file ''/data/base/100'' 0x8180 90"
  let ?f = "?pgv\<lparr>pagemap := {0, 1}\<rparr>"
  let ?s = "demo_state BACKUP_MODE_DIFF_PAGE demo_world0"
  have srt: "sorted_wrt (\<lambda>a b. path a < path b) [?pgv, ?old]"
    by (simp add: demo_file_def less_char_def)
  have mem: "?pgv \<in> set [?pgv, ?old]" by simp
  have p: "path ?pgv = path ?f" and m: "mtime ?pgv = mtime ?f"
    by (simp_all add: demo_file_def)
  have h: "\<not> fst (200 :: int, 0 :: int) < mtime ?f \<and> \<not> fst (x_interrupted demo_env (world ?s)) \<and>
          fst (x_stat demo_env (path ?f) (snd (x_interrupted demo_env (world ?s)))) =
            StatOk \<lparr>st_mode = 0x8180\<rparr> \<and>
          S_ISREG (st_mode \<lparr>st_mode = 0x8180\<rparr>)"
    by (simp add: demo_env_sel demo_stat_def demo_file_def demo_state_def demo_world0_def
        S_ISREG_def S_IFMT_def S_IFREG_def)
  from backup_file_unmodified_skipped [OF srt mem p m, THEN conjunct2, rule_format, OF h,
      THEN conjunct1, of 3 False "''/data''" "''/backup/1/database''" "Some 5"]
  have r: "backup_file 3 demo_env False ''/data'' ''/backup/1/database'' (Some [?pgv, ?old])
             (Some 5) None (200, 0) ?f ?s =
           ([], ?s, Return ((200, 0), ?f\<lparr>write_size := - 1\<rparr>))"
    by (simp add: demo_env_sel demo_stat_def demo_file_def demo_state_def demo_world0_def
        BYTES_INVALID_def)
  have ex: "\<exists>p\<in>set [?pgv, ?old]. path p = path ?f \<and> mtime p = mtime ?f"
    using p m by simp
  from srt ex r show ?thesis by (intro conjI)
qed

subsection \<open>Events, results and states of a sequence\<close>

lemma events_of_bind:
  "events_of (bind m f s) =
     events_of (m s) @
     (case result_of (m s) of Return a \<Rightarrow> events_of (f a (state_of (m s))) | _ \<Rightarrow> [])"
  by (simp add: bind_def events_of_def result_of_def state_of_def
      split: prod.splits result.splits)

lemma result_of_bind:
  "result_of (bind m f s) =
     (case result_of (m s) of
        Return a \<Rightarrow> result_of (f a (state_of (m s)))
      | Fatal e \<Rightarrow> Fatal e
      | OutOfFuel \<Rightarrow> OutOfFuel)"
  by (simp add: bind_def events_of_def result_of_def state_of_def
      split: prod.splits result.splits)

lemma state_of_bind:
  "state_of (bind m f s) =
     (case result_of (m s) of
        Return a \<Rightarrow> state_of (f a (state_of (m s)))
      | _ \<Rightarrow> state_of (m s))"
  by (simp add: bind_def events_of_def result_of_def state_of_def
      split: prod.splits result.splits)

lemma basic_events [simp]:
  "events_of (ret a s) = []" "events_of (fatal err s) = []" "events_of (modify g s) = []"
  "events_of (get_state s) = []" "events_of (ext_call c s) = []" "events_of (ext_do d s) = []"
  "events_of (ext_try t s) = []" "events_of (emit e s) = [e]"
  by (simp_all add: ret_def fatal_def modify_def get_state_def ext_call_def ext_do_def
      ext_try_def emit_def events_of_def split: prod.splits sum.splits)

lemma basic_results [simp]:
  "result_of (ret a s) = Return a" "result_of (fatal err s) = Fatal err"
  "result_of (modify g s) = Return ()" "result_of (get_state s) = Return s"
  "result_of (ext_call c s) = Return (fst (c (world s)))" "result_of (ext_do d s) = Return ()"
  "result_of (emit e s) = Return ()"
  by (simp_all add: ret_def fatal_def modify_def get_state_def ext_call_def ext_do_def
      emit_def result_of_def split: prod.splits)

lemma basic_states [simp]:
  "state_of (ret a s) = s" "state_of (fatal err s) = s" "state_of (modify g s) = g s"
  "state_of (get_state s) = s" "state_of (ext_call c s) = s\<lparr>world := snd (c (world s))\<rparr>"
  "state_of (ext_do d s) = s\<lparr>world := d (world s)\<rparr>"
  "state_of (ext_try t s) = s\<lparr>world := snd (t (world s))\<rparr>" "state_of (emit e s) = s"
  by (simp_all add: ret_def fatal_def modify_def get_state_def ext_call_def ext_do_def
      ext_try_def emit_def state_of_def split: prod.splits sum.splits)

lemma result_of_ext_try:
  "result_of (ext_try t s) =
     (case fst (t (world s)) of Inl m \<Rightarrow> Fatal (External m) | Inr a \<Rightarrow> Return a)"
  by (simp add: ext_try_def result_of_def split: prod.splits sum.splits)

subsection \<open>Kinds of events and parts of the state that stay\<close>

lemma emitsI: "(\<And>s e. e \<in> set (events_of (m s)) \<Longrightarrow> K e) \<Longrightarrow> emits K m"
  by (simp add: emits_def)

lemma emitsD: "emits K m \<Longrightarrow> e \<in> set (events_of (m s)) \<Longrightarrow> K e"
  by (simp add: emits_def)

lemma emits_bind: "emits K m \<Longrightarrow> (\<And>a. emits K (f a)) \<Longrightarrow> emits K (bind m f)"
  by (auto simp: emits_def events_of_bind split: result.splits)

lemma emits_basic:
  "emits K (ret a)" "emits K (fatal err)" "emits K (modify g)" "emits K get_state"
  "emits K (ext_call c)" "emits K (ext_do d)" "emits K (ext_try t)"
  by (simp_all add: emits_def)

lemma emits_emit: "K e \<Longrightarrow> emits K (emit e)"
  by (simp add: emits_def)

lemma emits_weaken: "emits K m \<Longrightarrow> (\<And>e. K e \<Longrightarrow> K' e) \<Longrightarrow> emits K' m"
  by (simp add: emits_def)

lemma keeps_bind: "keeps g m \<Longrightarrow> (\<And>a. keeps g (f a)) \<Longrightarrow> keeps g (bind m f)"
  by (auto simp: keeps_def state_of_bind split: result.splits)

lemma keeps_basic:
  "keeps g (ret a)" "keeps g (fatal err)" "keeps g get_state" "keeps g (emit e)"
  by (simp_all add: keeps_def)

lemma keeps_ext:
  assumes "\<And>s w. g (s\<lparr>world := w\<rparr>) = g s"
  shows "keeps g (ext_call c)" "keeps g (ext_do d)" "keeps g (ext_try t)"
  using assms by (simp_all add: keeps_def)

lemma keeps_modify: "(\<And>s. g (h s) = g s) \<Longrightarrow> keeps g (modify h)"
  by (simp add: keeps_def)

subsection \<open>Orderings of events\<close>

lemma pending_append: "pending As (xs @ ys) = pending (pending As xs) ys"
  by (induction As xs rule: pending.induct) simp_all

lemma ordered_before_append:
  "ordered_before As B (xs @ ys) \<longleftrightarrow>
     ordered_before As B xs \<and> ordered_before (pending As xs) B ys"
  by (induction As B xs rule: ordered_before.induct) simp_all

lemma ordered_before_free: "\<forall>e\<in>set es. \<not> B e \<Longrightarrow> ordered_before As B es"
  by (induction As B es rule: ordered_before.induct) simp_all

lemma pending_free: "\<forall>e\<in>set es. \<not> A e \<Longrightarrow> pending (A # As) es = A # As"
  by (induction es) simp_all

lemma ordered_before_Nil [simp]: "ordered_before As B []"
  by (cases As) simp_all

lemma pending_Nil [simp]: "pending As [] = As"
  by (cases As) simp_all

lemma ordered_before_bind:
  assumes "ordered_before As B (events_of (m s))"
    and "\<And>a. result_of (m s) = Return a \<Longrightarrow>
           ordered_before (pending As (events_of (m s))) B (events_of (f a (state_of (m s))))"
  shows "ordered_before As B (events_of (bind m f s))"
  using assms by (simp add: events_of_bind ordered_before_append split: result.splits)

lemma pending_bind:
  "result_of (bind m f s) = Return b \<Longrightarrow>
   \<exists>a. result_of (m s) = Return a \<and>
       result_of (f a (state_of (m s))) = Return b \<and>
       pending As (events_of (bind m f s)) =
         pending (pending As (events_of (m s))) (events_of (f a (state_of (m s))))"
  by (auto simp: events_of_bind result_of_bind pending_append split: result.splits)

lemma all_events_bind:
  assumes "\<forall>e\<in>set (events_of (m s)). K e"
    and "\<And>a. result_of (m s) = Return a \<Longrightarrow> \<forall>e\<in>set (events_of (f a (state_of (m s)))). K e"
  shows "\<forall>e\<in>set (events_of (bind m f s)). K e"
proof (cases "result_of (m s)")
  case (Return a)
  with assms(1) assms(2) [OF Return] show ?thesis
    by (auto simp: events_of_bind)
next
  case (Fatal err)
  with assms(1) show ?thesis by (simp add: events_of_bind)
next
  case OutOfFuel
  with assms(1) show ?thesis by (simp add: events_of_bind)
qed

lemma ordered_before_index:
  "ordered_before [A] B es \<longleftrightarrow> (\<forall>i<length es. B (es ! i) \<longrightarrow> (\<exists>j<i. A (es ! j)))"
proof (induction es)
  case Nil
  show ?case by simp
next
  case (Cons e es)
  show ?case
  proof (cases "A e")
    case True
    then show ?thesis
      by (auto simp: nth_Cons split: nat.splits)
  next
    case False
    have "(\<forall>i<length (e # es). B ((e # es) ! i) \<longrightarrow> (\<exists>j<i. A ((e # es) ! j))) \<longleftrightarrow>
          \<not> B e \<and> (\<forall>i<length es. B (es ! i) \<longrightarrow> (\<exists>j<i. A (es ! j)))"
      (is "?L \<longleftrightarrow> ?R")
    proof
      assume l: ?L
      then have "\<not> B e" by force
      moreover have "\<exists>j<i. A (es ! j)" if "i < length es" "B (es ! i)" for i
      proof -
        from l that obtain j where j: "j < Suc i" "A ((e # es) ! j)" by force
        with False obtain k where "j = Suc k" by (cases j) auto
        with j show ?thesis by auto
      qed
      ultimately show ?R by blast
    next
      assume r: ?R
      show ?L
      proof (intro allI impI)
        fix i assume i: "i < length (e # es)" "B ((e # es) ! i)"
        with r obtain k where k: "i = Suc k" by (cases i) auto
        with i r obtain j where "j < k" "A (es ! j)" by auto
        with k show "\<exists>j<i. A ((e # es) ! j)" by (intro exI [of _ "Suc j"]) simp
      qed
    qed
    with False Cons.IH show ?thesis by simp
  qed
qed

subsection \<open>The events of each function\<close>

lemmas emits_intros = emits_bind emits_basic emits_emit

lemma copy_event_simps [simp]:
  "copy_event (EvUsleep n)" "copy_event (EvMkdir p)" "copy_event (EvCopyFile p sec)"
  "copy_event (EvBackupDataFile p lsn sec)"
  by (simp_all add: copy_event_def)

lemma server_event_simps [simp]:
  "server_event sql (EvExecute ''SET client_min_messages = warning;'' [])"
  "server_event sql (EvExecute sql [])"
  "server_event sql (EvExecute TXID_CURRENT_SQL [])"
  "server_event sql (EvArchivePoll p present)"
  "server_event sql (EvSleep 1)"
  "server_event sql (EvSleep (Suc 0))"
  by (simp_all add: server_event_def)

lemma emits_fileExists: "emits K (fileExists X p)"
  by (simp add: fileExists_def emits_intros)

lemma emits_execute: "K (EvExecute sql params) \<Longrightarrow> emits K (execute X sql params)"
  by (simp add: execute_def emits_intros)

lemma emits_get_lsn: "emits K (get_lsn X res)"
  by (auto simp: get_lsn_def intro!: emits_intros split: option.splits prod.splits)

lemma emits_get_xid: "emits K (get_xid X res)"
  by (auto simp: get_xid_def intro!: emits_intros split: option.splits prod.splits)

lemma emits_pg_start_backup:
  "(\<And>params. K (EvExecute ''SELECT pg_start_backup($1, $2)'' params)) \<Longrightarrow>
   emits K (pg_start_backup X label smooth backup)"
  by (auto simp: pg_start_backup_def intro!: emits_intros emits_execute emits_get_lsn)

lemma wait_archive_loop_events:
  "(\<And>present. K (EvArchivePoll p present)) \<Longrightarrow> K (EvSleep 1) \<Longrightarrow>
   \<forall>e\<in>set (events_of (wait_archive_loop X p c s)). K e"
proof (induction X p c s rule: wait_archive_loop.induct)
  case (1 X p c s)
  show ?case
  proof (cases "poll_present X p (world s)")
    case False
    with 1(2) show ?thesis by (simp add: wait_archive_loop_absent events_of_def)
  next
    case present: True
    show ?thesis
    proof (cases "poll_interrupted X p (world s)")
      case True
      with present 1(2,3) show ?thesis
        by (simp add: wait_archive_loop_interrupted events_of_def)
    next
      case False
      show ?thesis
      proof (cases "c + 1 \<le> TIMEOUT_ARCHIVE")
        case True
        have fe: "fileExists X p s = ([], s\<lparr>world := snd (x_stat X p (world s))\<rparr>, Return True)"
          using present by (simp add: fileExists_eq poll_present_def)
        obtain w where w: "x_interrupted X (x_sleep X 1 (world (s\<lparr>world := snd (x_stat X p (world s))\<rparr>)))
                         = (False, w)"
          using False by (cases "x_interrupted X (x_sleep X 1 (snd (x_stat X p (world s))))")
            (simp add: poll_interrupted_def)
        have nt: "\<not> TIMEOUT_ARCHIVE < c + 1" using True by simp
        have "\<forall>e\<in>set (events_of (wait_archive_loop X p (c + 1)
                 ((s\<lparr>world := snd (x_stat X p (world s))\<rparr>)\<lparr>world := w\<rparr>))). K e"
          using "1.IH" [OF fe [symmetric] refl refl _ w [symmetric] _ nt] 1(2,3) by simp
        moreover have "poll_next X p (world s) = w"
          using w by (simp add: poll_next_def)
        ultimately show ?thesis
          using present False True 1(2,3)
          by (simp add: wait_archive_loop_again events_of_def split: prod.splits)
      next
        case False
        with present \<open>\<not> poll_interrupted X p (world s)\<close> 1(2,3) show ?thesis
          by (simp add: wait_archive_loop_timeout events_of_def)
      qed
    qed
  qed
qed

lemma emits_wait_archive_loop:
  "(\<And>present. K (EvArchivePoll p present)) \<Longrightarrow> K (EvSleep 1) \<Longrightarrow>
   emits K (wait_archive_loop X p c)"
  using wait_archive_loop_events [of K p X c] by (simp add: emits_def)

lemma emits_wait_for_archive_query:
  "emits (server_event sql) (wait_for_archive_query X pgdata backup sql)"
  by (auto simp: wait_for_archive_query_def
      intro!: emits_intros emits_execute emits_get_lsn emits_get_xid)

lemma emits_wait_for_archive: "emits (server_event sql) (wait_for_archive X pgdata backup sql)"
  by (auto simp: wait_for_archive_def
      intro!: emits_intros emits_wait_for_archive_query emits_wait_archive_loop)

lemma emits_pg_stop_backup:
  "emits (server_event ''SELECT * FROM pg_stop_backup()'') (pg_stop_backup X pgdata backup)"
  by (simp add: pg_stop_backup_def emits_wait_for_archive)

lemma emits_wait_next_second: "emits copy_event (wait_next_second fuel X mt tv)"
proof (induction fuel arbitrary: tv)
  case 0
  show ?case by (simp add: wait_next_second.simps emits_def events_of_def ret_def)
next
  case (Suc fuel)
  show ?case
    by (auto simp: wait_next_second.simps intro!: emits_intros Suc.IH)
qed

lemma emits_wait_mtime_passed: "emits copy_event (wait_mtime_passed fuel X file tv)"
  by (auto simp: wait_mtime_passed_def intro!: emits_intros emits_wait_next_second)

lemma emits_copy_one_file: "emits copy_event (copy_one_file X from_root to_root lsn tv file)"
  by (auto simp: copy_one_file_def intro!: emits_intros split: prod.splits)

lemma emits_backup_file:
  "emits copy_event (backup_file fuel X check from_root to_root prev_files lsn pfx tv file)"
  by (auto simp: backup_file_def copy_regular_file_def
      intro!: emits_intros emits_wait_mtime_passed emits_copy_one_file
      split: stat_outcome.splits option.splits)

lemma emits_backup_files_loop:
  "emits copy_event
     (backup_files_loop fuel X check from_root to_root prev_files lsn pfx files i tv)"
  by (induction files arbitrary: i tv)
    (auto intro!: emits_intros emits_backup_file split: prod.splits)

lemma emits_backup_files:
  "emits (\<lambda>e. copy_event e \<or> is_copy_done e)
     (backup_files fuel X check from_root to_root prev_files lsn pfx)"
  by (auto simp: backup_files_def
      intro!: emits_intros emits_weaken [OF emits_backup_files_loop])

lemma emits_dir_list_file:
  "K (EvScan root exclude omit_symlink add_root) \<Longrightarrow>
   emits K (dir_list_file X root exclude omit_symlink add_root)"
  by (simp add: dir_list_file_def emits_intros)

lemma emits_add_files:
  "K (EvScan root True True add_root) \<Longrightarrow> emits K (add_files X root add_root is_pgdata)"
  by (simp add: add_files_def emits_intros emits_dir_list_file)

lemma emits_create_file_list:
  "emits is_manifest (create_file_list X check root subdir pfx is_append)"
  by (auto simp: create_file_list_def intro!: emits_intros)

lemma emits_extractPageMap:
  "emits is_extract (extractPageMap X pgdata arclog_path startpoint t endpoint)"
  by (auto simp: extractPageMap_def intro!: emits_intros split: prod.splits option.splits)

subsection \<open>What each function leaves as it was\<close>

lemmas keeps_intros = keeps_bind keeps_basic

lemma untouched_world: "untouched g \<Longrightarrow> g (s\<lparr>world := w\<rparr>) = g s"
  by (simp add: untouched_def)

lemma untouched_files: "untouched g \<Longrightarrow> g (s\<lparr>backup_files_list := l\<rparr>) = g s"
  by (simp add: untouched_def)

lemma untouched_current:
  "untouched g \<Longrightarrow> backup_mode c = backup_mode (current s) \<Longrightarrow>
   status c = status (current s) \<Longrightarrow> end_time c = end_time (current s) \<Longrightarrow>
   g (s\<lparr>current := c\<rparr>) = g s"
  by (simp add: untouched_def)

lemma keeps_ext_untouched:
  assumes "untouched g"
  shows "keeps g (ext_call c)" "keeps g (ext_do d)" "keeps g (ext_try t)"
  using assms by (simp_all add: keeps_def untouched_world)

lemmas keeps_auto = keeps_intros keeps_ext_untouched keeps_modify untouched_files
  untouched_current

lemma keeps_fileExists: "untouched g \<Longrightarrow> keeps g (fileExists X p)"
  by (simp add: fileExists_def keeps_auto)

lemma keeps_execute: "untouched g \<Longrightarrow> keeps g (execute X sql params)"
  by (simp add: execute_def keeps_auto)

lemma keeps_get_lsn: "keeps g (get_lsn X res)"
  by (auto simp: get_lsn_def intro!: keeps_intros split: option.splits prod.splits)

lemma keeps_get_xid: "keeps g (get_xid X res)"
  by (auto simp: get_xid_def intro!: keeps_intros split: option.splits prod.splits)

lemma keeps_pg_start_backup: "untouched g \<Longrightarrow> keeps g (pg_start_backup X label smooth backup)"
  by (auto simp: pg_start_backup_def
      intro!: keeps_auto keeps_execute keeps_get_lsn)

lemma wait_archive_loop_state:
  "untouched g \<Longrightarrow> g (state_of (wait_archive_loop X p c s)) = g s"
proof (induction X p c s rule: wait_archive_loop.induct)
  case (1 X p c s)
  note u = untouched_world [OF 1(2)]
  show ?case
  proof (cases "poll_present X p (world s)")
    case False
    then show ?thesis by (simp add: wait_archive_loop_absent state_of_def u)
  next
    case present: True
    show ?thesis
    proof (cases "poll_interrupted X p (world s)")
      case True
      with present show ?thesis
        by (simp add: wait_archive_loop_interrupted state_of_def u)
    next
      case False
      show ?thesis
      proof (cases "c + 1 \<le> TIMEOUT_ARCHIVE")
        case True
        have fe: "fileExists X p s = ([], s\<lparr>world := snd (x_stat X p (world s))\<rparr>, Return True)"
          using present by (simp add: fileExists_eq poll_present_def)
        obtain w where w: "x_interrupted X (x_sleep X 1 (world (s\<lparr>world := snd (x_stat X p (world s))\<rparr>)))
                         = (False, w)"
          using False by (cases "x_interrupted X (x_sleep X 1 (snd (x_stat X p (world s))))")
            (simp add: poll_interrupted_def)
        have nt: "\<not> TIMEOUT_ARCHIVE < c + 1" using True by simp
        have "g (state_of (wait_archive_loop X p (c + 1)
                 ((s\<lparr>world := snd (x_stat X p (world s))\<rparr>)\<lparr>world := w\<rparr>))) =
              g ((s\<lparr>world := snd (x_stat X p (world s))\<rparr>)\<lparr>world := w\<rparr>)"
          using "1.IH" [OF fe [symmetric] refl refl _ w [symmetric] _ nt] 1(2) by simp
        moreover have "poll_next X p (world s) = w"
          using w by (simp add: poll_next_def)
        ultimately show ?thesis
          using present False True
          by (cases "wait_archive_loop X p (Suc c) (s\<lparr>world := w\<rparr>)" rule: prod_cases3)
            (simp add: wait_archive_loop_again state_of_def u)
      next
        case False
        with present \<open>\<not> poll_interrupted X p (world s)\<close> show ?thesis
          by (simp add: wait_archive_loop_timeout state_of_def u)
      qed
    qed
  qed
qed

lemma keeps_wait_archive_loop: "untouched g \<Longrightarrow> keeps g (wait_archive_loop X p c)"
  by (simp add: keeps_def wait_archive_loop_state)

lemma keeps_wait_for_archive_query:
  "untouched g \<Longrightarrow> keeps g (wait_for_archive_query X pgdata backup sql)"
  by (auto simp: wait_for_archive_query_def
      intro!: keeps_auto keeps_execute keeps_get_lsn keeps_get_xid)

lemma keeps_wait_for_archive: "untouched g \<Longrightarrow> keeps g (wait_for_archive X pgdata backup sql)"
  by (auto simp: wait_for_archive_def
      intro!: keeps_auto keeps_wait_for_archive_query keeps_wait_archive_loop)

lemma keeps_pg_stop_backup: "untouched g \<Longrightarrow> keeps g (pg_stop_backup X pgdata backup)"
  by (simp add: pg_stop_backup_def keeps_wait_for_archive)

lemma keeps_wait_next_second: "untouched g \<Longrightarrow> keeps g (wait_next_second fuel X mt tv)"
proof (induction fuel arbitrary: tv)
  case 0
  then show ?case by (simp add: wait_next_second.simps keeps_def state_of_def ret_def)
next
  case (Suc fuel)
  then show ?case
    by (auto simp: wait_next_second.simps intro!: keeps_auto)
qed

lemma keeps_wait_mtime_passed: "untouched g \<Longrightarrow> keeps g (wait_mtime_passed fuel X file tv)"
  by (auto simp: wait_mtime_passed_def intro!: keeps_auto keeps_wait_next_second)

lemma keeps_copy_one_file:
  "untouched g \<Longrightarrow> keeps g (copy_one_file X from_root to_root lsn tv file)"
  by (auto simp: copy_one_file_def intro!: keeps_auto split: prod.splits)

lemma keeps_backup_file:
  "untouched g \<Longrightarrow>
   keeps g (backup_file fuel X check from_root to_root prev_files lsn pfx tv file)"
  by (auto simp: backup_file_def copy_regular_file_def
      intro!: keeps_auto keeps_wait_mtime_passed keeps_copy_one_file
      split: stat_outcome.splits option.splits)

lemma keeps_backup_files_loop:
  "untouched g \<Longrightarrow>
   keeps g (backup_files_loop fuel X check from_root to_root prev_files lsn pfx files i tv)"
  by (induction files arbitrary: i tv)
    (auto intro!: keeps_auto keeps_backup_file split: prod.splits)

lemma keeps_backup_files:
  "untouched g \<Longrightarrow> keeps g (backup_files fuel X check from_root to_root prev_files lsn pfx)"
  by (auto simp: backup_files_def intro!: keeps_auto keeps_backup_files_loop)

lemma keeps_dir_list_file:
  "untouched g \<Longrightarrow> keeps g (dir_list_file X root exclude omit_symlink add_root)"
  by (simp add: dir_list_file_def keeps_auto)

lemma keeps_add_files: "untouched g \<Longrightarrow> keeps g (add_files X root add_root is_pgdata)"
  by (auto simp: add_files_def intro!: keeps_auto keeps_dir_list_file)

lemma keeps_create_file_list:
  "untouched g \<Longrightarrow> keeps g (create_file_list X check root subdir pfx is_append)"
  by (auto simp: create_file_list_def intro!: keeps_auto)

lemma keeps_extractPageMap:
  "untouched g \<Longrightarrow> keeps g (extractPageMap X pgdata arclog_path startpoint t endpoint)"
  by (auto simp: extractPageMap_def intro!: keeps_auto split: prod.splits option.splits)

lemma keeps_checks: "untouched g \<Longrightarrow> keeps g (do_backup_database_checks X pgdata backup_list)"
  by (auto simp: do_backup_database_checks_def pg_is_standby_def
      intro!: keeps_auto keeps_fileExists split: option.splits)

lemma keeps_start: "untouched g \<Longrightarrow> keeps g (do_backup_database_start X pgdata smooth)"
  by (auto simp: do_backup_database_start_def
      intro!: keeps_auto keeps_fileExists keeps_pg_start_backup keeps_pg_stop_backup)

lemma keeps_mkdirs: "untouched g \<Longrightarrow> keeps g (do_backup_database_mkdirs X pgdata check)"
  by (auto simp: do_backup_database_mkdirs_def intro!: keeps_auto keeps_dir_list_file)

lemma keeps_prev: "untouched g \<Longrightarrow> keeps g (do_backup_database_prev X pgdata backup_list)"
  by (auto simp: do_backup_database_prev_def intro!: keeps_auto split: option.splits)

lemma keeps_list: "untouched g \<Longrightarrow> keeps g (do_backup_database_list X pgdata)"
  by (auto simp: do_backup_database_list_def intro!: keeps_auto keeps_add_files)

lemma keeps_pagemap:
  "untouched g \<Longrightarrow> keeps g (do_backup_database_pagemap X pgdata arclog_path prev_backup)"
  by (auto simp: do_backup_database_pagemap_def
      intro!: keeps_auto keeps_wait_for_archive keeps_extractPageMap split: option.splits)

lemma keeps_copy:
  "untouched g \<Longrightarrow>
   keeps g (do_backup_database_copy fuel X pgdata check to_root prev_files lsn)"
  by (auto simp: do_backup_database_copy_def
      intro!: keeps_auto keeps_backup_files keeps_pg_stop_backup keeps_create_file_list)

lemma keeps_summary: "untouched g \<Longrightarrow> keeps g do_backup_database_summary"
  by (auto simp: do_backup_database_summary_def intro!: keeps_auto)

lemma keeps_steps:
  "untouched g \<Longrightarrow>
   keeps g (do_backup_database_steps fuel X pgdata arclog_path check backup_list smooth)"
  by (auto simp: do_backup_database_steps_def
      intro!: keeps_intros keeps_start keeps_mkdirs keeps_prev keeps_list keeps_pagemap
        keeps_copy keeps_summary split: prod.splits)

lemma keeps_do_backup_database:
  "untouched g \<Longrightarrow>
   keeps g (do_backup_database fuel X pgdata arclog_path check backup_list smooth)"
  by (auto simp: do_backup_database_def intro!: keeps_intros keeps_checks keeps_steps)

lemma untouched_mode: "untouched (\<lambda>s. backup_mode (current s))"
  by (simp add: untouched_def)

lemma untouched_status: "untouched (\<lambda>s. (status (current s), end_time (current s), in_backup s))"
  by (simp add: untouched_def)

subsection \<open>The steps of \<^verbatim>\<open>do_backup_database\<close>\<close>

lemma emits_no_events: "emits (\<lambda>e. False) m \<Longrightarrow> events_of (m s) = []"
  by (cases "events_of (m s)") (auto simp: emits_def dest: spec [of _ s])

lemma ordered_before_emits:
  "emits K m \<Longrightarrow> (\<And>e. K e \<Longrightarrow> \<not> B e) \<Longrightarrow> ordered_before As B (events_of (m s))"
  by (rule ordered_before_free) (auto simp: emits_def)

lemma pending_emits:
  "emits K m \<Longrightarrow> (\<And>e. K e \<Longrightarrow> \<not> A e) \<Longrightarrow> pending (A # As) (events_of (m s)) = A # As"
  by (rule pending_free) (auto simp: emits_def)

lemma emits_checks: "emits K (do_backup_database_checks X pgdata backup_list)"
  by (auto simp: do_backup_database_checks_def pg_is_standby_def
      intro!: emits_intros emits_fileExists split: option.splits)

lemma emits_start:
  "emits (\<lambda>e. is_start e \<or> server_event ''SELECT * FROM pg_stop_backup()'' e)
     (do_backup_database_start X pgdata smooth)"
  by (auto simp: do_backup_database_start_def
      intro!: emits_intros emits_fileExists emits_pg_start_backup
        emits_weaken [OF emits_pg_stop_backup])

lemma emits_mkdirs:
  "emits (\<lambda>e. e = EvScan pgdata False False False \<or> (\<exists>p. e = EvWriteMkdirs p))
     (do_backup_database_mkdirs X pgdata check)"
  by (auto simp: do_backup_database_mkdirs_def intro!: emits_intros emits_dir_list_file)

lemma emits_prev:
  "emits (\<lambda>e. \<exists>p. e = EvReadFileList p) (do_backup_database_prev X pgdata backup_list)"
  by (auto simp: do_backup_database_prev_def intro!: emits_intros split: option.splits)

lemma emits_list:
  "emits (\<lambda>e. e = EvScan pgdata True True False) (do_backup_database_list X pgdata)"
  by (auto simp: do_backup_database_list_def intro!: emits_intros emits_add_files)

lemma emits_pagemap:
  "emits (\<lambda>e. server_event ''SELECT * FROM pg_switch_xlog()'' e \<or> is_extract e)
     (do_backup_database_pagemap X pgdata arclog_path prev_backup)"
  by (auto simp: do_backup_database_pagemap_def
      intro!: emits_intros emits_weaken [OF emits_wait_for_archive]
        emits_weaken [OF emits_extractPageMap] split: option.splits)

lemma emits_copy:
  "emits (\<lambda>e. copy_event e \<or> is_copy_done e \<or>
            server_event ''SELECT * FROM pg_stop_backup()'' e \<or> is_manifest e)
     (do_backup_database_copy fuel X pgdata check to_root prev_files lsn)"
  by (auto simp: do_backup_database_copy_def
      intro!: emits_intros emits_weaken [OF emits_backup_files]
        emits_weaken [OF emits_pg_stop_backup] emits_weaken [OF emits_create_file_list])

lemma emits_summary: "emits K do_backup_database_summary"
  by (auto simp: do_backup_database_summary_def intro!: emits_intros)

text \<open>What the events of a step are when the step returns.\<close>

lemma pg_start_backup_returns:
  "result_of (pg_start_backup X label smooth backup s) = Return u \<Longrightarrow>
   events_of (pg_start_backup X label smooth backup s) =
     [EvExecute ''SELECT pg_start_backup($1, $2)'' [label, if smooth then ''false'' else ''true'']]"
  by (simp add: pg_start_backup_def events_of_bind result_of_bind execute_def
      result_of_ext_try emits_no_events [OF emits_get_lsn]
      split: result.splits sum.splits if_splits)

lemma start_returns:
  "result_of (do_backup_database_start X pgdata smooth s) = Return u \<Longrightarrow>
   \<exists>params. events_of (do_backup_database_start X pgdata smooth s) =
     [EvExecute ''SELECT pg_start_backup($1, $2)'' params]"
  by (auto simp: do_backup_database_start_def events_of_bind result_of_bind
      pg_start_backup_returns emits_no_events [OF emits_fileExists]
      split: result.splits if_splits)

lemma list_returns:
  "result_of (do_backup_database_list X pgdata s) = Return to_root \<Longrightarrow>
   events_of (do_backup_database_list X pgdata s) = [EvScan pgdata True True False]"
  by (simp add: do_backup_database_list_def add_files_def dir_list_file_def
      events_of_bind result_of_bind split: result.splits)

lemma wait_archive_loop_returns_shape:
  "result_of (wait_archive_loop X p c s) = Return n \<Longrightarrow>
   \<exists>k. events_of (wait_archive_loop X p c s) = waiting_turns p k @ [EvArchivePoll p False]"
proof (induction X p c s rule: wait_archive_loop.induct)
  case (1 X p c s)
  show ?case
  proof (cases "poll_present X p (world s)")
    case False
    then show ?thesis
      by (intro exI [of _ 0]) (simp add: wait_archive_loop_absent events_of_def waiting_turns_def)
  next
    case present: True
    show ?thesis
    proof (cases "poll_interrupted X p (world s)")
      case True
      with present 1(2) show ?thesis
        by (simp add: wait_archive_loop_interrupted result_of_def)
    next
      case False
      show ?thesis
      proof (cases "c + 1 \<le> TIMEOUT_ARCHIVE")
        case True
        have fe: "fileExists X p s = ([], s\<lparr>world := snd (x_stat X p (world s))\<rparr>, Return True)"
          using present by (simp add: fileExists_eq poll_present_def)
        obtain w where w: "x_interrupted X (x_sleep X 1 (world (s\<lparr>world := snd (x_stat X p (world s))\<rparr>)))
                         = (False, w)"
          using False by (cases "x_interrupted X (x_sleep X 1 (snd (x_stat X p (world s))))")
            (simp add: poll_interrupted_def)
        have nt: "\<not> TIMEOUT_ARCHIVE < c + 1" using True by simp
        have pn: "poll_next X p (world s) = w"
          using w by (simp add: poll_next_def)
        obtain es s' r where l: "wait_archive_loop X p (Suc c) (s\<lparr>world := w\<rparr>) = (es, s', r)"
          by (metis prod_cases3)
        have r: "r = Return n"
          using 1(2) present False True l pn
          by (simp add: wait_archive_loop_again result_of_def)
        from "1.IH" [OF fe [symmetric] refl refl _ w [symmetric] _ nt] l r
        obtain k where "es = waiting_turns p k @ [EvArchivePoll p False]"
          by (auto simp: result_of_def events_of_def)
        then show ?thesis
          using present False True l pn
          by (intro exI [of _ "Suc k"])
            (simp add: wait_archive_loop_again events_of_def waiting_turns_Suc)
      next
        case False
        with present \<open>\<not> poll_interrupted X p (world s)\<close> 1(2) show ?thesis
          by (simp add: wait_archive_loop_timeout result_of_def)
      qed
    qed
  qed
qed

lemma bind_returnsE:
  assumes "result_of (bind m f s) = Return b"
  obtains a where "result_of (m s) = Return a"
    and "result_of (f a (state_of (m s))) = Return b"
    and "events_of (bind m f s) = events_of (m s) @ events_of (f a (state_of (m s)))"
  using assms by (cases "result_of (m s)") (simp_all add: result_of_bind events_of_bind)

lemma execute_events [simp]: "events_of (execute X sql params s) = [EvExecute sql params]"
  by (simp add: execute_def events_of_bind)

lemma get_lsn_events [simp]: "events_of (get_lsn X res s) = []"
  by (rule emits_no_events [OF emits_get_lsn])

lemma get_xid_events [simp]: "events_of (get_xid X res s) = []"
  by (rule emits_no_events [OF emits_get_xid])

lemma wait_for_archive_query_returns:
  assumes "result_of (wait_for_archive_query X pgdata backup sql s) = Return p"
  shows "events_of (wait_for_archive_query X pgdata backup sql s) =
     [EvExecute ''SET client_min_messages = warning;'' [], EvExecute sql [],
      EvExecute TXID_CURRENT_SQL []]"
proof -
  have quiet: "events_of ((if backup then m else ret ()) t) = []"
    if "emits (\<lambda>e. False) m" for m :: "('a, unit) prog" and t
    using that by (simp add: emits_no_events)
  have xid: "emits (\<lambda>e. False) (bind (get_xid X res) (\<lambda>xid.
                bind (ext_call (x_time X)) (\<lambda>now.
                modify (\<lambda>s. s\<lparr>current :=
                  (current s)\<lparr>recovery_xid := xid, recovery_time := now\<rparr>\<rparr>))))" for res
    by (intro emits_intros emits_get_xid)
  have upd: "emits (\<lambda>e. False)
      (modify (\<lambda>s. s\<lparr>current := (current s)\<lparr>tli := t, stop_lsn := lsn\<rparr>\<rparr>)
        :: ('a, unit) prog)" for t lsn
    by (intro emits_intros)
  from assms show ?thesis
    unfolding wait_for_archive_query_def
    by (elim bind_returnsE) (simp add: quiet [OF xid] quiet [OF upd])
qed

lemma wait_for_archive_returns:
  "result_of (wait_for_archive X pgdata backup sql s) = Return u \<Longrightarrow>
   \<exists>p k. events_of (wait_for_archive X pgdata backup sql s) =
     [EvExecute ''SET client_min_messages = warning;'' [], EvExecute sql [],
      EvExecute TXID_CURRENT_SQL []] @ waiting_turns p k @ [EvArchivePoll p False]"
proof -
  assume r: "result_of (wait_for_archive X pgdata backup sql s) = Return u"
  then obtain p where q: "result_of (wait_for_archive_query X pgdata backup sql s) = Return p"
    by (auto simp: wait_for_archive_def result_of_bind split: result.splits)
  let ?s1 = "state_of (wait_for_archive_query X pgdata backup sql s)"
  from r q obtain n where l: "result_of (wait_archive_loop X p 0 ?s1) = Return n"
    by (auto simp: wait_for_archive_def result_of_bind split: result.splits)
  from wait_archive_loop_returns_shape [OF l] obtain k where
    "events_of (wait_archive_loop X p 0 ?s1) = waiting_turns p k @ [EvArchivePoll p False]" ..
  then show ?thesis
    using q l wait_for_archive_query_returns [OF q]
    by (intro exI [of _ p] exI [of _ k]) (simp add: wait_for_archive_def events_of_bind)
qed

lemma extractPageMap_events:
  "events_of (extractPageMap X pgdata arclog_path startpoint t endpoint s) =
     [EvExtractPageMap startpoint t endpoint]"
  by (simp add: extractPageMap_def events_of_bind case_prod_unfold
      split: result.splits option.splits)

lemma pending_waiting_turns:
  "\<not> A (EvArchivePoll p True) \<Longrightarrow> \<not> A (EvSleep 1) \<Longrightarrow>
   pending (A # As) (waiting_turns p k @ ys) = pending (A # As) ys"
  by (induction k) (simp_all add: waiting_turns_Suc, simp add: waiting_turns_def)

lemma TXID_not [simp]:
  "TXID_CURRENT_SQL \<noteq> ''SELECT * FROM pg_switch_xlog()''"
  "TXID_CURRENT_SQL \<noteq> ''SELECT * FROM pg_stop_backup()''"
  "TXID_CURRENT_SQL \<noteq> ''SELECT pg_start_backup($1, $2)''"
  by (simp_all add: TXID_CURRENT_SQL_def)

subsection \<open>The order of the steps\<close>

lemma ordered_before_bind_skip:
  assumes "emits K m" and "\<And>e. K e \<Longrightarrow> \<not> B e \<and> \<not> A e"
    and "\<And>a. result_of (m s) = Return a \<Longrightarrow>
           ordered_before (A # As) B (events_of (f a (state_of (m s))))"
  shows "ordered_before (A # As) B (events_of (bind m f s))"
proof (rule ordered_before_bind)
  show "ordered_before (A # As) B (events_of (m s))"
    using assms(1,2) by (auto intro: ordered_before_emits)
  have "pending (A # As) (events_of (m s)) = A # As"
    using assms(1,2) by (auto intro: pending_emits)
  then show "ordered_before (pending (A # As) (events_of (m s))) B
      (events_of (f a (state_of (m s))))" if "result_of (m s) = Return a" for a
    using assms(3) [OF that] by simp
qed

lemma ordered_before_bind_hit:
  assumes "emits K m" and "\<And>e. K e \<Longrightarrow> \<not> B e"
    and "\<And>a. result_of (m s) = Return a \<Longrightarrow> pending As (events_of (m s)) = As'"
    and "\<And>a. result_of (m s) = Return a \<Longrightarrow>
           ordered_before As' B (events_of (f a (state_of (m s))))"
  shows "ordered_before As B (events_of (bind m f s))"
proof (rule ordered_before_bind)
  show "ordered_before As B (events_of (m s))"
    using assms(1,2) by (auto intro: ordered_before_emits)
  show "ordered_before (pending As (events_of (m s))) B (events_of (f a (state_of (m s))))"
    if "result_of (m s) = Return a" for a
    using assms(3,4) [OF that] by simp
qed

lemma kind_forms:
  "is_start e \<Longrightarrow> \<exists>params. e = EvExecute ''SELECT pg_start_backup($1, $2)'' params"
  "is_copy e \<Longrightarrow> (\<exists>p sec. e = EvCopyFile p sec) \<or> (\<exists>p lsn sec. e = EvBackupDataFile p lsn sec)"
  "is_extract e \<Longrightarrow> \<exists>a t b. e = EvExtractPageMap a t b"
  "is_copy_done e \<Longrightarrow> e = EvCopyDone"
  "is_manifest e \<Longrightarrow> \<exists>p. e = EvWriteFileList p"
  by (cases e; simp)+

lemmas kind_defs = server_event_def copy_event_def TXID_CURRENT_SQL_def

lemma mode_kept [simp]:
  "backup_mode (current (state_of (do_backup_database_checks X pgdata bl s))) =
     backup_mode (current s)"
  "backup_mode (current (state_of (do_backup_database_start X pgdata smooth s))) =
     backup_mode (current s)"
  "backup_mode (current (state_of (do_backup_database_mkdirs X pgdata check s))) =
     backup_mode (current s)"
  "backup_mode (current (state_of (do_backup_database_prev X pgdata bl s))) =
     backup_mode (current s)"
  "backup_mode (current (state_of (do_backup_database_list X pgdata s))) =
     backup_mode (current s)"
  "backup_mode (current (state_of (do_backup_database_pagemap X pgdata arclog pb s))) =
     backup_mode (current s)"
  using keeps_checks [OF untouched_mode, of X pgdata bl]
    keeps_start [OF untouched_mode, of X pgdata smooth]
    keeps_mkdirs [OF untouched_mode, of X pgdata check]
    keeps_prev [OF untouched_mode, of X pgdata bl]
    keeps_list [OF untouched_mode, of X pgdata]
    keeps_pagemap [OF untouched_mode, of X pgdata arclog pb]
  by (simp_all add: keeps_def)

lemma pending_start:
  "result_of (do_backup_database_start X pgdata smooth s) = Return u \<Longrightarrow>
   pending (is_start # As) (events_of (do_backup_database_start X pgdata smooth s)) = As"
  by (drule start_returns) auto

lemma pending_list:
  "result_of (do_backup_database_list X pgdata s) = Return to_root \<Longrightarrow>
   pending (is_file_scan # As) (events_of (do_backup_database_list X pgdata s)) = As"
  by (drule list_returns) simp

lemma pending_wait_for_archive:
  assumes "result_of (wait_for_archive X pgdata backup sql s) = Return u"
    and "A (EvExecute sql [])"
    and "\<not> A (EvExecute ''SET client_min_messages = warning;'' [])"
  shows "pending (A # is_marker_gone # As) (events_of (wait_for_archive X pgdata backup sql s)) = As"
proof -
  from wait_for_archive_returns [OF assms(1)] obtain p k where
    "events_of (wait_for_archive X pgdata backup sql s) =
       [EvExecute ''SET client_min_messages = warning;'' [], EvExecute sql [],
        EvExecute TXID_CURRENT_SQL []] @ waiting_turns p k @ [EvArchivePoll p False]"
    by blast
  then show ?thesis
    using assms(2,3) by (simp add: pending_waiting_turns)
qed

lemma pagemap_diff_returns:
  assumes "backup_mode (current s) = BACKUP_MODE_DIFF_PAGE"
    and "result_of (do_backup_database_pagemap X pgdata arclog pb s) = Return u"
  shows "\<exists>es a t b. events_of (do_backup_database_pagemap X pgdata arclog pb s) =
           es @ [EvExtractPageMap a t b] \<and>
           pending (is_switch # is_marker_gone # As) es = As \<and>
           (\<forall>e\<in>set es. server_event ''SELECT * FROM pg_switch_xlog()'' e)"
proof -
  let ?w = "wait_for_archive X pgdata True ''SELECT * FROM pg_switch_xlog()''"
  from assms obtain v where w: "result_of (?w s) = Return v"
    by (auto simp: do_backup_database_pagemap_def result_of_bind split: result.splits)
  from assms w obtain p where pb: "pb = Some p"
    by (cases pb) (auto simp: do_backup_database_pagemap_def result_of_bind)
  have "events_of (do_backup_database_pagemap X pgdata arclog pb s) =
          events_of (?w s) @
          [EvExtractPageMap (start_lsn p) (tli (current (state_of (?w s))))
             (start_lsn (current (state_of (?w s))))]"
    using assms(1) w pb
    by (simp add: do_backup_database_pagemap_def events_of_bind extractPageMap_events)
  moreover have "pending (is_switch # is_marker_gone # As) (events_of (?w s)) = As"
    using w by (rule pending_wait_for_archive) simp_all
  moreover have "\<forall>e\<in>set (events_of (?w s)). server_event ''SELECT * FROM pg_switch_xlog()'' e"
    using emits_wait_for_archive [of "''SELECT * FROM pg_switch_xlog()''" X pgdata True]
    by (simp add: emits_def)
  ultimately show ?thesis by blast
qed

lemma pending_pagemap:
  assumes "backup_mode (current s) = BACKUP_MODE_DIFF_PAGE"
    and "result_of (do_backup_database_pagemap X pgdata arclog pb s) = Return u"
  shows "pending (is_switch # is_marker_gone # is_extract # As)
           (events_of (do_backup_database_pagemap X pgdata arclog pb s)) = As"
  using pagemap_diff_returns [OF assms, of "is_extract # As"]
  by (auto simp: pending_append)

lemma pagemap_order:
  "ordered_before [is_switch, is_marker_gone] is_extract
     (events_of (do_backup_database_pagemap X pgdata arclog pb s))"
proof (cases "backup_mode (current s) = BACKUP_MODE_DIFF_PAGE")
  case True
  let ?w = "wait_for_archive X pgdata True ''SELECT * FROM pg_switch_xlog()''"
  have "ordered_before [is_switch, is_marker_gone] is_extract (events_of (bind ?w f s))" for f
  proof (rule ordered_before_bind_hit [OF emits_wait_for_archive, where As' = "[]"])
    show "\<not> is_extract e" if "server_event ''SELECT * FROM pg_switch_xlog()'' e" for e
      using that by (auto simp: server_event_def)
    show "pending [is_switch, is_marker_gone] (events_of (?w s)) = []"
      if "result_of (?w s) = Return a" for a
      using that by (rule pending_wait_for_archive) simp_all
  qed simp
  with True show ?thesis
    by (simp add: do_backup_database_pagemap_def events_of_bind)
next
  case False
  then show ?thesis
    by (simp add: do_backup_database_pagemap_def events_of_bind)
qed

lemma copy_order:
  assumes "backup_mode (current s) = BACKUP_MODE_DIFF_PAGE"
  shows "ordered_before [is_start, is_file_scan, is_switch, is_marker_gone, is_extract] is_copy
           (events_of (do_backup_database fuel X pgdata arclog check bl smooth s))"
  unfolding do_backup_database_def do_backup_database_steps_def
  apply (rule ordered_before_bind_skip [OF emits_checks [of "\<lambda>e. False"]])
   apply simp
  apply (rule ordered_before_bind_hit [OF emits_start,
        where As' = "[is_file_scan, is_switch, is_marker_gone, is_extract]"])
    apply (auto simp: kind_defs dest!: kind_forms)[1]
   apply (simp add: pending_start)
  apply (rule ordered_before_bind_skip [OF emits_mkdirs])
   apply auto[1]
  apply (rule ordered_before_bind_skip [OF emits_prev])
   apply auto[1]
  apply (simp only: split_def)
  apply (rule ordered_before_bind_hit [OF emits_list,
        where As' = "[is_switch, is_marker_gone, is_extract]"])
    apply auto[1]
   apply (simp add: pending_list)
  apply (rule ordered_before_bind_hit [OF emits_pagemap, where As' = "[]"])
    apply (auto simp: kind_defs dest!: kind_forms)[1]
   apply (simp add: pending_pagemap assms)
  apply simp
  done


lemma scan_order:
  "ordered_before [is_start] is_scan
     (events_of (do_backup_database fuel X pgdata arclog check bl smooth s))"
  unfolding do_backup_database_def do_backup_database_steps_def
  apply (rule ordered_before_bind_skip [OF emits_checks [of "\<lambda>e. False"]])
   apply simp
  apply (rule ordered_before_bind_hit [OF emits_start, where As' = "[]"])
    apply (auto simp: kind_defs dest!: kind_forms)[1]
   apply (simp add: pending_start)
  apply simp
  done

lemma switch_order:
  "ordered_before [is_start, is_file_scan] is_switch
     (events_of (do_backup_database fuel X pgdata arclog check bl smooth s))"
  unfolding do_backup_database_def do_backup_database_steps_def
  apply (rule ordered_before_bind_skip [OF emits_checks [of "\<lambda>e. False"]])
   apply simp
  apply (rule ordered_before_bind_hit [OF emits_start, where As' = "[is_file_scan]"])
    apply (auto simp: kind_defs dest!: kind_forms)[1]
   apply (simp add: pending_start)
  apply (rule ordered_before_bind_skip [OF emits_mkdirs])
   apply auto[1]
  apply (rule ordered_before_bind_skip [OF emits_prev])
   apply auto[1]
  apply (simp only: split_def)
  apply (rule ordered_before_bind_hit [OF emits_list, where As' = "[]"])
    apply auto[1]
   apply (simp add: pending_list)
  apply simp
  done

lemma emits_copy_summary:
  "emits (\<lambda>e. copy_event e \<or> is_copy_done e \<or>
            server_event ''SELECT * FROM pg_stop_backup()'' e \<or> is_manifest e)
     (bind (do_backup_database_copy fuel X pgdata check to_root prev_files lsn)
        (\<lambda>_. do_backup_database_summary))"
  by (intro emits_bind emits_copy emits_summary)

lemma extract_order:
  "ordered_before [is_start, is_file_scan, is_switch, is_marker_gone] is_extract
     (events_of (do_backup_database fuel X pgdata arclog check bl smooth s))"
  unfolding do_backup_database_def do_backup_database_steps_def
  apply (rule ordered_before_bind_skip [OF emits_checks [of "\<lambda>e. False"]])
   apply simp
  apply (rule ordered_before_bind_hit [OF emits_start,
        where As' = "[is_file_scan, is_switch, is_marker_gone]"])
    apply (auto simp: kind_defs dest!: kind_forms)[1]
   apply (simp add: pending_start)
  apply (rule ordered_before_bind_skip [OF emits_mkdirs])
   apply auto[1]
  apply (rule ordered_before_bind_skip [OF emits_prev])
   apply auto[1]
  apply (simp only: split_def)
  apply (rule ordered_before_bind_hit [OF emits_list, where As' = "[is_switch, is_marker_gone]"])
    apply auto[1]
   apply (simp add: pending_list)
  apply (rule ordered_before_bind)
   apply (rule pagemap_order)
  apply (rule ordered_before_emits [OF emits_copy_summary])
  apply (auto simp: kind_defs dest!: kind_forms)
  done

text \<open>The copy, the stop of the backup and the file list.\<close>

lemma backup_files_shape:
  "\<exists>es. (\<forall>e\<in>set es. copy_event e) \<and>
     events_of (backup_files fuel X check from_root to_root prev_files lsn pfx s) =
       es @ (case result_of (backup_files fuel X check from_root to_root prev_files lsn pfx s)
             of Return u \<Rightarrow> [EvCopyDone] | _ \<Rightarrow> [])"
proof -
  have "\<forall>e\<in>set (events_of
      (backup_files_loop fuel X check from_root to_root prev_files lsn pfx files i tv t)).
      copy_event e" for files i tv t
    using emits_backup_files_loop [of fuel X check from_root to_root prev_files lsn pfx files i tv]
    by (simp add: emits_def)
  then show ?thesis
    unfolding backup_files_def
    by (simp add: events_of_bind result_of_bind split: result.splits)
qed

lemma pending_backup_files:
  assumes "result_of (backup_files fuel X check from_root to_root prev_files lsn pfx s) = Return u"
  shows "pending (is_copy_done # As)
           (events_of (backup_files fuel X check from_root to_root prev_files lsn pfx s)) = As"
proof -
  from backup_files_shape [of fuel X check from_root to_root prev_files lsn pfx s] assms
  obtain es where es: "\<forall>e\<in>set es. copy_event e"
    and ev: "events_of (backup_files fuel X check from_root to_root prev_files lsn pfx s) =
               es @ [EvCopyDone]"
    by auto
  have "pending (is_copy_done # As) es = is_copy_done # As"
    using es by (intro pending_free) (auto simp: kind_defs dest!: kind_forms)
  then show ?thesis by (simp add: ev pending_append)
qed

lemma copy_stop_order:
  "ordered_before [is_copy_done] is_stop
     (events_of (do_backup_database_copy fuel X pgdata check to_root prev_files lsn s))"
  unfolding do_backup_database_copy_def
  apply (rule ordered_before_bind_hit [OF emits_backup_files, where As' = "[]"])
    apply (auto simp: kind_defs dest!: kind_forms)[1]
   apply (simp add: pending_backup_files)
  apply simp
  done

lemma copy_manifest_order:
  "ordered_before [is_copy_done, is_stop, is_marker_gone] is_manifest
     (events_of (do_backup_database_copy fuel X pgdata check to_root prev_files lsn s))"
  unfolding do_backup_database_copy_def
  apply (rule ordered_before_bind_hit [OF emits_backup_files,
        where As' = "[is_stop, is_marker_gone]"])
    apply (auto simp: kind_defs dest!: kind_forms)[1]
   apply (simp add: pending_backup_files)
  apply (rule ordered_before_bind_hit [OF emits_pg_stop_backup, where As' = "[]"])
    apply (auto simp: kind_defs dest!: kind_forms)[1]
   apply (simp add: pg_stop_backup_def pending_wait_for_archive)
  apply simp
  done

lemma none_after_free: "\<forall>e\<in>set es. \<not> B e \<Longrightarrow> none_after A B es"
  by (auto simp: none_after_def dest: set_dropWhileD)

lemma none_after_absent: "\<forall>e\<in>set es. \<not> A e \<Longrightarrow> none_after A B es"
  by (simp add: none_after_def dropWhile_eq_Nil_conv [THEN iffD2])

lemma none_after_append:
  "\<forall>e\<in>set xs. \<not> A e \<Longrightarrow> none_after A B (xs @ ys) = none_after A B ys"
  by (simp add: none_after_def)

lemma none_after_bind_skip:
  assumes "emits K m" and "\<And>e. K e \<Longrightarrow> \<not> A e"
    and "\<And>a. result_of (m s) = Return a \<Longrightarrow> none_after A B (events_of (f a (state_of (m s))))"
  shows "none_after A B (events_of (bind m f s))"
proof -
  have free: "\<forall>e\<in>set (events_of (m s)). \<not> A e"
    using assms(1,2) by (auto simp: emits_def)
  show ?thesis
  proof (cases "result_of (m s)")
    case (Return a)
    with assms(3) free show ?thesis
      by (simp add: events_of_bind none_after_append)
  next
    case (Fatal err)
    with free show ?thesis by (simp add: events_of_bind none_after_absent)
  next
    case OutOfFuel
    with free show ?thesis by (simp add: events_of_bind none_after_absent)
  qed
qed

lemma copy_none_after:
  "none_after is_copy_done is_copy
     (events_of (do_backup_database_copy fuel X pgdata check to_root prev_files lsn s))"
proof -
  let ?bf = "backup_files fuel X check pgdata to_root prev_files lsn None"
  let ?rest = "\<lambda>_ :: unit. bind (pg_stop_backup X pgdata True)
                 (\<lambda>_. create_file_list X check pgdata DATABASE_FILE_LIST None False)"
  from backup_files_shape [of fuel X check pgdata to_root prev_files lsn None s]
  obtain es where es: "\<forall>e\<in>set es. copy_event e"
    and ev: "events_of (?bf s) =
               es @ (case result_of (?bf s) of Return u \<Rightarrow> [EvCopyDone] | _ \<Rightarrow> [])"
    by blast
  have nd: "\<forall>e\<in>set es. \<not> is_copy_done e"
    using es by (auto simp: kind_defs dest!: kind_forms)
  have "emits (\<lambda>e. server_event ''SELECT * FROM pg_stop_backup()'' e \<or> is_manifest e) (?rest u)"
    for u :: unit
    by (intro emits_bind emits_weaken [OF emits_pg_stop_backup]
        emits_weaken [OF emits_create_file_list]) simp_all
  then have rest: "\<forall>e\<in>set (events_of (?rest u t)). \<not> is_copy e" for u t
    by (auto simp: emits_def kind_defs dest!: kind_forms)
  show ?thesis
  proof (cases "result_of (?bf s)")
    case (Return a)
    with ev nd rest show ?thesis
      by (simp add: do_backup_database_copy_def events_of_bind none_after_append)
        (simp add: none_after_def)
  next
    case (Fatal err)
    with ev nd show ?thesis
      by (simp add: do_backup_database_copy_def events_of_bind none_after_absent)
  next
    case OutOfFuel
    with ev nd show ?thesis
      by (simp add: do_backup_database_copy_def events_of_bind none_after_absent)
  qed
qed

lemma events_bind_summary [simp]:
  "events_of (bind m (\<lambda>_. do_backup_database_summary) s) = events_of (m s)"
  by (simp add: events_of_bind emits_no_events [OF emits_summary] split: result.splits)

lemma manifest_order:
  "ordered_before [is_copy_done, is_stop, is_marker_gone] is_manifest
     (events_of (do_backup_database fuel X pgdata arclog check bl smooth s))"
  unfolding do_backup_database_def do_backup_database_steps_def
  apply (rule ordered_before_bind_skip [OF emits_checks [of "\<lambda>e. False"]])
   apply simp
  apply (rule ordered_before_bind_skip [OF emits_start])
   apply (auto simp: kind_defs dest!: kind_forms)[1]
  apply (rule ordered_before_bind_skip [OF emits_mkdirs])
   apply auto[1]
  apply (rule ordered_before_bind_skip [OF emits_prev])
   apply auto[1]
  apply (simp only: split_def)
  apply (rule ordered_before_bind_skip [OF emits_list])
   apply auto[1]
  apply (rule ordered_before_bind_skip [OF emits_pagemap])
   apply (auto simp: kind_defs dest!: kind_forms)[1]
  apply (simp add: copy_manifest_order)
  done

lemma copy_done_last:
  "none_after is_copy_done is_copy
     (events_of (do_backup_database fuel X pgdata arclog check bl smooth s))"
  unfolding do_backup_database_def do_backup_database_steps_def
  apply (rule none_after_bind_skip [OF emits_checks [of "\<lambda>e. False"]])
   apply simp
  apply (rule none_after_bind_skip [OF emits_start])
   apply (auto simp: kind_defs dest!: kind_forms)[1]
  apply (rule none_after_bind_skip [OF emits_mkdirs])
   apply auto[1]
  apply (rule none_after_bind_skip [OF emits_prev])
   apply auto[1]
  apply (simp only: split_def)
  apply (rule none_after_bind_skip [OF emits_list])
   apply auto[1]
  apply (rule none_after_bind_skip [OF emits_pagemap])
   apply (auto simp: kind_defs dest!: kind_forms)[1]
  apply (simp add: copy_none_after)
  done

lemma stop_after_start_order:
  "ordered_before [is_copy_done] is_stop
     (events_of (bind (do_backup_database_mkdirs X pgdata check) (\<lambda>_.
        bind (do_backup_database_prev X pgdata bl) (\<lambda>(prev_files, lsn, prev_backup).
        bind (do_backup_database_list X pgdata) (\<lambda>to_root.
        bind (do_backup_database_pagemap X pgdata arclog prev_backup) (\<lambda>_.
        bind (do_backup_database_copy fuel X pgdata check to_root prev_files lsn) (\<lambda>_.
        do_backup_database_summary))))) s))"
  apply (rule ordered_before_bind_skip [OF emits_mkdirs])
   apply auto[1]
  apply (rule ordered_before_bind_skip [OF emits_prev])
   apply auto[1]
  apply (simp only: split_def)
  apply (rule ordered_before_bind_skip [OF emits_list])
   apply auto[1]
  apply (rule ordered_before_bind_skip [OF emits_pagemap])
   apply (auto simp: kind_defs dest!: kind_forms)[1]
  apply (simp add: copy_stop_order)
  done

lemma stop_order:
  "ordered_before [is_copy_done] is_stop
     (events_of (do_backup_database fuel X pgdata arclog check bl smooth s)) \<or>
   (\<forall>e\<in>set (events_of (do_backup_database fuel X pgdata arclog check bl smooth s)).
      is_start e \<or> server_event ''SELECT * FROM pg_stop_backup()'' e) \<and>
   \<not> (\<exists>files. result_of (do_backup_database fuel X pgdata arclog check bl smooth s) =
        Return files)"
proof (cases "result_of (do_backup_database_checks X pgdata bl s)")
  case (Return u)
  let ?s1 = "state_of (do_backup_database_checks X pgdata bl s)"
  note quiet = emits_no_events [OF emits_checks]
  show ?thesis
  proof (cases "\<exists>v. result_of (do_backup_database_start X pgdata smooth ?s1) = Return v")
    case True
    then obtain v where v: "result_of (do_backup_database_start X pgdata smooth ?s1) = Return v" ..
    from start_returns [OF v] obtain params where
      "events_of (do_backup_database_start X pgdata smooth ?s1) =
         [EvExecute ''SELECT pg_start_backup($1, $2)'' params]" ..
    then have "ordered_before [is_copy_done] is_stop
        (events_of (do_backup_database fuel X pgdata arclog check bl smooth s))"
      using Return v stop_after_start_order [of X pgdata check bl arclog fuel]
      by (simp add: do_backup_database_def do_backup_database_steps_def events_of_bind quiet)
    then show ?thesis ..
  next
    case False
    have "\<forall>e\<in>set (events_of (do_backup_database_start X pgdata smooth ?s1)).
            is_start e \<or> server_event ''SELECT * FROM pg_stop_backup()'' e"
      using emits_start [of X pgdata smooth] by (simp add: emits_def)
    with False Return show ?thesis
      by (cases "result_of (do_backup_database_start X pgdata smooth ?s1)")
        (simp_all add: do_backup_database_def do_backup_database_steps_def events_of_bind
          result_of_bind quiet)
  qed
next
  case (Fatal err)
  then show ?thesis
    by (simp add: do_backup_database_def events_of_bind emits_no_events [OF emits_checks])
next
  case OutOfFuel
  then show ?thesis
    by (simp add: do_backup_database_def events_of_bind emits_no_events [OF emits_checks])
qed

end
